(* ===== verification/Prelude.thy ===== *)
theory Prelude
  imports Main
begin

text \<open>
  Shared vocabulary of the development.

  The linter code is JavaScript: arrays are searched left to right with early exit, an index
  out of range reads \<^verbatim>\<open>undefined\<close>, and a recursive function that never stops ends with the
  exhaustion of the call stack. Arrays are lists, a read is \<open>at_index\<close>, and a recursion whose
  termination is not structural carries the depth of the call stack as its first argument:
  the result \<open>None\<close> says that the stack ran out, \<open>Some x\<close> that the function returned \<open>x\<close>.
  The combinator \<open>some_opt\<close> is \<^verbatim>\<open>Array.prototype.some\<close> for callbacks of that kind.
\<close>

named_theorems tree_simps \<open>accessors of the syntax tree\<close>
named_theorems walk_simps \<open>loops over parents and wrappers\<close>
named_theorems rule_defs \<open>definitions of the lint rules\<close>

declare conj_cong [fundef_cong]
declare disj_cong [fundef_cong]

subsection \<open>Arrays\<close>

text \<open>\<open>at_index xs i\<close> is \<^verbatim>\<open>xs[i]\<close>, with \<open>None\<close> for \<^verbatim>\<open>undefined\<close>.\<close>

definition at_index :: "'a list \<Rightarrow> nat \<Rightarrow> 'a option" where
  "at_index xs i = (if i < length xs then Some (xs ! i) else None)"

lemma at_index_Nil [simp]: "at_index [] i = None"
  by (simp add: at_index_def)

lemma at_index_Cons [simp]:
  "at_index (x # xs) i = (case i of 0 \<Rightarrow> Some x | Suc j \<Rightarrow> at_index xs j)"
  by (simp add: at_index_def split: nat.split)

lemma at_index_mem: "at_index xs i = Some x \<Longrightarrow> x \<in> set xs"
  by (auto simp: at_index_def split: if_splits)

lemma at_index_0: "at_index xs 0 = (case xs of [] \<Rightarrow> None | x # _ \<Rightarrow> Some x)"
  by (cases xs) simp_all

lemma at_index_map: "at_index (map f xs) i = map_option f (at_index xs i)"
  by (simp add: at_index_def)

text \<open>\<^verbatim>\<open>xs.find(p)\<close> is \<^const>\<open>find\<close>; its two outcomes as rules.\<close>

lemma find_SomeD: "find P xs = Some x \<Longrightarrow> x \<in> set xs \<and> P x"
  by (induction xs) (auto split: if_splits)

lemma find_NoneD: "find P xs = None \<Longrightarrow> x \<in> set xs \<Longrightarrow> \<not> P x"
  by (induction xs) (auto split: if_splits)

lemma find_map: "find P (map f xs) = map_option f (find (P \<circ> f) xs)"
  by (induction xs) simp_all

subsection \<open>Searches whose callback may exhaust the stack\<close>

primrec some_opt :: "('a \<Rightarrow> bool option) \<Rightarrow> 'a list \<Rightarrow> bool option" where
  "some_opt f [] = Some False"
| "some_opt f (x # xs) =
     (case f x of None \<Rightarrow> None | Some b \<Rightarrow> if b then Some True else some_opt f xs)"

lemma some_opt_cong [fundef_cong]:
  "xs = ys \<Longrightarrow> (\<And>x. x \<in> set ys \<Longrightarrow> f x = g x) \<Longrightarrow> some_opt f xs = some_opt g ys"
  by (induction xs arbitrary: ys) (auto split: option.splits)

lemma some_opt_TrueD: "some_opt f xs = Some True \<Longrightarrow> \<exists>x\<in>set xs. f x = Some True"
  by (induction xs) (auto split: option.splits if_splits)

lemma some_opt_FalseD: "some_opt f xs = Some False \<Longrightarrow> x \<in> set xs \<Longrightarrow> f x = Some False"
  by (induction xs) (auto split: option.splits if_splits)

lemma some_opt_total: "(\<And>x. x \<in> set xs \<Longrightarrow> f x \<noteq> None) \<Longrightarrow> some_opt f xs \<noteq> None"
  by (induction xs) (auto split: option.splits)

lemma some_opt_mono:
  assumes "\<And>x b. x \<in> set xs \<Longrightarrow> f x = Some b \<Longrightarrow> g x = Some b"
    and "some_opt f xs = Some r"
  shows "some_opt g xs = Some r"
  using assms by (induction xs) (auto split: option.splits if_splits)

lemma some_opt_Some: "some_opt (\<lambda>x. Some (P x)) xs = Some (list_ex P xs)"
  by (induction xs) auto

text \<open>\<^verbatim>\<open>xs.map(f)\<close> for such callbacks.\<close>

primrec map_opt :: "('a \<Rightarrow> 'b option) \<Rightarrow> 'a list \<Rightarrow> 'b list option" where
  "map_opt f [] = Some []"
| "map_opt f (x # xs) =
     (case f x of None \<Rightarrow> None | Some y \<Rightarrow> map_option ((#) y) (map_opt f xs))"

lemma map_opt_cong [fundef_cong]:
  "xs = ys \<Longrightarrow> (\<And>x. x \<in> set ys \<Longrightarrow> f x = g x) \<Longrightarrow> map_opt f xs = map_opt g ys"
  by (induction xs arbitrary: ys) (auto split: option.splits)

lemma map_opt_total: "(\<And>x. x \<in> set xs \<Longrightarrow> f x \<noteq> None) \<Longrightarrow> map_opt f xs \<noteq> None"
  by (induction xs) (auto split: option.splits)

lemma map_opt_mono:
  assumes "\<And>x b. x \<in> set xs \<Longrightarrow> f x = Some b \<Longrightarrow> g x = Some b"
    and "map_opt f xs = Some r"
  shows "map_opt g xs = Some r"
  using assms by (induction xs arbitrary: r) (auto split: option.splits)

lemma map_opt_Some: "map_opt (\<lambda>x. Some (f x)) xs = Some (map f xs)"
  by (induction xs) auto

lemma map_opt_SomeD: "map_opt f xs = Some ys \<Longrightarrow> map f xs = map Some ys"
  by (induction xs arbitrary: ys) (auto split: option.splits)

subsection \<open>Stack depth\<close>

text \<open>
  A family of results indexed by the available depth is \<^emph>\<open>stable\<close> when a result, once
  returned, is returned at every greater depth; it \<^emph>\<open>converges\<close> when some depth is enough.
\<close>

definition stable :: "(nat \<Rightarrow> 'a option) \<Rightarrow> bool" where
  "stable F \<longleftrightarrow> (\<forall>n x. F n = Some x \<longrightarrow> F (Suc n) = Some x)"

definition converges :: "(nat \<Rightarrow> 'a option) \<Rightarrow> bool" where
  "converges F \<longleftrightarrow> (\<exists>n. \<forall>m\<ge>n. F m \<noteq> None)"

lemma stable_ge: "stable F \<Longrightarrow> F n = Some x \<Longrightarrow> n \<le> m \<Longrightarrow> F m = Some x"
  by (induction m) (auto simp: stable_def le_Suc_eq)

lemma stable_convergesI: "stable F \<Longrightarrow> F n \<noteq> None \<Longrightarrow> converges F"
  unfolding converges_def by (metis not_None_eq stable_ge)

lemma convergesD: "converges F \<Longrightarrow> \<exists>n x. F n = Some x"
  unfolding converges_def by blast

lemma converges_finite:
  assumes "finite A" and "\<And>a. a \<in> A \<Longrightarrow> converges (F a)"
  shows "\<exists>n. \<forall>m\<ge>n. \<forall>a\<in>A. F a m \<noteq> None"
  using assms
proof (induction rule: finite_induct)
  case empty
  then show ?case by simp
next
  case (insert a A)
  from insert obtain n where "\<forall>m\<ge>n. \<forall>b\<in>A. F b m \<noteq> None" by blast
  moreover from insert.prems [of a] obtain k where "\<forall>m\<ge>k. F a m \<noteq> None"
    unfolding converges_def by blast
  ultimately have "\<forall>m\<ge>max n k. \<forall>b\<in>insert a A. F b m \<noteq> None" by simp
  then show ?case by blast
qed

subsection \<open>Recursive functions by their calls\<close>

text \<open>
  One call of a recursive function of the source, up to the recursive calls it makes: it is
  done, it returns what another call returns, it searches a list of calls with
  \<^verbatim>\<open>some\<close> (stopping at the first hit), or it makes all the calls of a list with \<^verbatim>\<open>map\<close>.
  \<open>run_calls body depth\<close> is the function, on a call stack of the given depth.
\<close>

datatype ('s, 'r) call =
    Done 'r
  | Tail 's
  | AnyCall "'s list" "'r \<Rightarrow> bool" "bool \<Rightarrow> 'r"
  | AllCalls "'s list" "'r list \<Rightarrow> 'r"

primrec run_calls :: "('s \<Rightarrow> ('s, 'r) call) \<Rightarrow> nat \<Rightarrow> 's \<Rightarrow> 'r option" where
  "run_calls body 0 s = None"
| "run_calls body (Suc depth) s =
     (case body s of
        Done r \<Rightarrow> Some r
      | Tail t \<Rightarrow> run_calls body depth t
      | AnyCall ts P k \<Rightarrow>
          map_option k (some_opt (\<lambda>t. map_option P (run_calls body depth t)) ts)
      | AllCalls ts k \<Rightarrow> map_option k (map_opt (run_calls body depth) ts))"

fun callees :: "('s, 'r) call \<Rightarrow> 's list" where
  "callees (Done r) = []"
| "callees (Tail t) = [t]"
| "callees (AnyCall ts P k) = ts"
| "callees (AllCalls ts k) = ts"

lemma run_calls_Suc:
  "run_calls body n s = Some r \<Longrightarrow> run_calls body (Suc n) s = Some r"
proof (induction n arbitrary: s r)
  case (Suc n)
  show ?case
  proof (cases "body s")
    case (AnyCall ts P k)
    with Suc.prems obtain b where
      b: "some_opt (\<lambda>t. map_option P (run_calls body n t)) ts = Some b" "r = k b" by auto
    have "some_opt (\<lambda>t. map_option P (run_calls body (Suc n) t)) ts = Some b"
      by (rule some_opt_mono [OF _ b(1)]) (auto dest: Suc.IH simp del: run_calls.simps)
    with AnyCall b(2) show ?thesis by simp
  next
    case (AllCalls ts k)
    with Suc.prems obtain rs where rs: "map_opt (run_calls body n) ts = Some rs" "r = k rs" by auto
    have "map_opt (run_calls body (Suc n)) ts = Some rs"
      by (rule map_opt_mono [OF _ rs(1)]) (rule Suc.IH)
    with AllCalls rs(2) show ?thesis by simp
  qed (use Suc in simp_all)
qed simp

lemma run_calls_stable: "stable (\<lambda>n. run_calls body n s)"
  using run_calls_Suc [of body _ s] by (auto simp: stable_def simp del: run_calls.simps)

lemma run_calls_returns:
  assumes "\<And>t. t \<in> set (callees (body s)) \<Longrightarrow> run_calls body n t \<noteq> None"
  shows "run_calls body (Suc n) s \<noteq> None"
proof (cases "body s")
  case (AnyCall ts P k)
  then show ?thesis
    using assms some_opt_total [of ts "\<lambda>t. map_option P (run_calls body n t)"] by auto
next
  case (AllCalls ts k)
  then show ?thesis using assms map_opt_total [of ts "run_calls body n"] by auto
qed (use assms in auto)

text \<open>
  A function returns on every call that satisfies an invariant when the invariant holds of
  the calls it makes and these are smaller in a well-founded order.
\<close>

locale call_recursion =
  fixes body :: "'s \<Rightarrow> ('s, 'r) call" and inv :: "'s \<Rightarrow> bool" and order :: "('s \<times> 's) set"
  assumes wf_order: "wf order"
    and callee_inv: "inv s \<Longrightarrow> t \<in> set (callees (body s)) \<Longrightarrow> inv t"
    and callee_less: "inv s \<Longrightarrow> t \<in> set (callees (body s)) \<Longrightarrow> (t, s) \<in> order"
begin

lemma calls_converge: "inv s \<Longrightarrow> converges (\<lambda>n. run_calls body n s)"
proof (induction s rule: wf_induct_rule [OF wf_order])
  case (1 s)
  then have "converges (\<lambda>n. run_calls body n t)" if "t \<in> set (callees (body s))" for t
    using callee_inv callee_less that by blast
  then obtain n where "\<forall>m\<ge>n. \<forall>t\<in>set (callees (body s)). run_calls body m t \<noteq> None"
    using converges_finite [of "set (callees (body s))" "\<lambda>t n. run_calls body n t"] by auto
  then have "run_calls body (Suc n) s \<noteq> None"
    using run_calls_returns by (metis order_refl)
  then show ?case by (rule stable_convergesI [OF run_calls_stable])
qed

end

text \<open>
  A function never returns on a set of calls each of which first makes another call of the set.
\<close>

definition first_call :: "('s, 'r) call \<Rightarrow> 's \<Rightarrow> bool" where
  "first_call c t \<longleftrightarrow>
     (case c of
        Done r \<Rightarrow> False
      | Tail u \<Rightarrow> u = t
      | AnyCall ts P k \<Rightarrow> ts \<noteq> [] \<and> hd ts = t
      | AllCalls ts k \<Rightarrow> ts \<noteq> [] \<and> hd ts = t)"

lemma run_calls_first:
  assumes "first_call (body s) t" and "run_calls body n t = None"
  shows "run_calls body (Suc n) s = None"
  using assms by (cases "body s") (auto simp: first_call_def neq_Nil_conv)

lemma run_calls_diverges:
  assumes "\<And>s. s \<in> S \<Longrightarrow> \<exists>t\<in>S. first_call (body s) t" and "s \<in> S"
  shows "run_calls body n s = None"
  using assms(2)
proof (induction n arbitrary: s)
  case (Suc n)
  then obtain t where "t \<in> S" "first_call (body s) t" using assms(1) by blast
  with Suc.IH show ?case by (intro run_calls_first) auto
qed simp

subsection \<open>Linear recursions\<close>

text \<open>A recursion is linear when every call is done or hands over to one other call.\<close>

fun tail_of :: "('s, 'r) call \<Rightarrow> 's option" where
  "tail_of (Tail t) = Some t"
| "tail_of _ = None"

fun result_of :: "('s, 'r) call \<Rightarrow> 'r option" where
  "result_of (Done r) = Some r"
| "result_of _ = None"

definition linear :: "('s \<Rightarrow> ('s, 'r) call) \<Rightarrow> bool" where
  "linear body \<longleftrightarrow> (\<forall>s. tail_of (body s) \<noteq> None \<or> result_of (body s) \<noteq> None)"

primrec last_call :: "('s \<Rightarrow> 's option) \<Rightarrow> nat \<Rightarrow> 's \<Rightarrow> 's option" where
  "last_call tails 0 s = None"
| "last_call tails (Suc n) s = (case tails s of None \<Rightarrow> Some s | Some t \<Rightarrow> last_call tails n t)"

lemma run_linear:
  assumes "linear body"
  shows "run_calls body n s =
    (case last_call (tail_of \<circ> body) n s of None \<Rightarrow> None | Some t \<Rightarrow> result_of (body t))"
proof (induction n arbitrary: s)
  case (Suc n)
  from assms have "tail_of (body s) \<noteq> None \<or> result_of (body s) \<noteq> None" by (simp add: linear_def)
  with Suc show ?case by (cases "body s") simp_all
qed simp

lemma last_call_Suc: "last_call f n s = Some t \<Longrightarrow> last_call f (Suc n) s = Some t"
proof (induction n arbitrary: s)
  case (Suc n)
  then show ?case using Suc.IH [of "the (f s)"] by (cases "f s") simp_all
qed simp

lemma last_call_inv:
  assumes "last_call f n s = Some t" and "I s" and "\<And>a b. I a \<Longrightarrow> f a = Some b \<Longrightarrow> I b"
  shows "I t"
  using assms(1,2)
  by (induction n arbitrary: s) (auto split: option.splits dest: assms(3))

text \<open>
  A linear recursion whose results are themselves computed with the available depth returns
  when its calls end and the result of the last call does.
\<close>

lemma linear_family_converges:
  assumes linear: "\<And>d. linear (body d)" and tails: "\<And>d s. tail_of (body d s) = tail_of (body 0 s)"
    and conv: "converges (\<lambda>n. run_calls (body 0) n s)"
    and inv: "I s" "\<And>a b. I a \<Longrightarrow> tail_of (body 0 a) = Some b \<Longrightarrow> I b"
    and results: "\<And>t. I t \<Longrightarrow> \<exists>k. \<forall>d\<ge>k. result_of (body d t) \<noteq> Some None"
  shows "converges (\<lambda>d. case run_calls (body d) d s of None \<Rightarrow> None | Some r \<Rightarrow> r)"
proof -
  let ?f = "tail_of \<circ> body 0"
  have run: "run_calls (body d) n s =
      (case last_call ?f n s of None \<Rightarrow> None | Some t \<Rightarrow> result_of (body d t))" for d n
  proof -
    have "tail_of \<circ> body d = ?f" using tails by auto
    then show ?thesis using run_linear [OF linear, of d n s] by simp
  qed
  from conv obtain n where "run_calls (body 0) n s \<noteq> None" unfolding converges_def by blast
  then obtain t where t: "last_call ?f n s = Some t"
    using run [of 0 n] by (cases "last_call ?f n s") simp_all
  have stable: "stable (\<lambda>n. last_call ?f n s)" 
    by (simp add: stable_def last_call_Suc del: last_call.simps)
  have "I t" using last_call_inv [of ?f n s t I] t inv by simp
  then obtain k where k: "\<forall>d\<ge>k. result_of (body d t) \<noteq> Some None" using results by blast
  have "tail_of (body 0 t) = None" 
    using t by (induction n arbitrary: s) (auto split: option.splits)
  then have fin: "result_of (body d t) \<noteq> None" for d
    using linear [of d] tails [of d t] unfolding linear_def by metis
  have "(case run_calls (body d) d s of None \<Rightarrow> None | Some r \<Rightarrow> r) \<noteq> None" if "d \<ge> max n k" for d
  proof -
    have "last_call ?f d s = Some t" using stable_ge [OF stable t, of d] that by (simp add: comp_def)
    then have "run_calls (body d) d s = result_of (body d t)" using run [of d d] by simp
    with k that fin [of d] show ?thesis by (cases "result_of (body d t)") auto
  qed
  then show ?thesis unfolding converges_def by blast
qed

lemma tail_of_iff: "tail_of c = Some t \<longleftrightarrow> c = Tail t"
  by (cases c) simp_all

lemma result_of_iff: "result_of c = Some r \<longleftrightarrow> c = Done r"
  by (cases c) simp_all

lemma callee_tail: "tail_of c = Some t \<Longrightarrow> t \<in> set (callees c)"
  by (cases c) simp_all

lemma converges_if:
  "(P \<Longrightarrow> converges F) \<Longrightarrow> (\<not> P \<Longrightarrow> converges G) \<Longrightarrow> converges (\<lambda>m. if P then F m else G m)"
  by (cases P) simp_all

lemma converges_case_option:
  "(x = None \<Longrightarrow> converges F) \<Longrightarrow> (\<And>y. x = Some y \<Longrightarrow> converges (G y)) \<Longrightarrow>
   converges (\<lambda>m. case x of None \<Rightarrow> F m | Some y \<Rightarrow> G y m)"
  by (cases x) simp_all

lemma converges_const [simp]: "converges (\<lambda>m. Some x)"
  by (simp add: converges_def)

end
