(* ===== verification/Ast.thy ===== *)
theory Ast
  imports Prelude
begin

text \<open>
  The syntax tree the rules inspect.

  An ESTree node is a JavaScript object with a \<^verbatim>\<open>type\<close> string, a source range and named
  properties; a property is a primitive, another node, an array of nodes, or null. The
  parser guarantees a tree, and adds a \<^verbatim>\<open>parent\<close> reference to every node but the program.
  Here a \<open>node\<close> is the object without its parent, \<open>Absent\<close> is null or undefined in the place
  of a node, and a \<open>cursor\<close> is a reference to a node: the node together with the steps and
  the parents that lead to it from the root. Two references are the same object exactly when
  the cursors are equal (\<open>cursor_identity\<close>), so \<^verbatim>\<open>===\<close> between nodes is equality of cursors,
  \<^verbatim>\<open>node.parent\<close> is \<open>parent\<close>, and a loop that follows parents is a recursion over the list
  \<open>ancestors\<close>, nearest first.

  A property that the node types declare as always present is read with the total accessor
  \<open>child\<close>; on a tree without it (which the parser never builds) the result has no kind.
\<close>

subsection \<open>Nodes\<close>

text \<open>
  A primitive value: a string, an integer, a boolean, null, or any other literal (a fraction, a
  bigint, a regular expression) with the text that \<^verbatim>\<open>String\<close> makes of it.
\<close>

datatype prim = PStr string | PNum int | PBool bool | PNull | POther string

record span =
  start_pos :: nat
  end_pos :: nat
  start_line :: nat
  end_line :: nat

datatype node = Absent | Node string span "(string \<times> property) list"
  and property = Prim prim | Child node | Children "node list"

fun node_kind :: "node \<Rightarrow> string" where
  "node_kind Absent = ''''"
| "node_kind (Node k sp fs) = k"

fun node_span :: "node \<Rightarrow> span" where
  "node_span Absent = \<lparr>start_pos = 0, end_pos = 0, start_line = 0, end_line = 0\<rparr>"
| "node_span (Node k sp fs) = sp"

fun prop_of :: "node \<Rightarrow> string \<Rightarrow> property option" where
  "prop_of Absent key = None"
| "prop_of (Node k sp fs) key = map_of fs key"

definition child_node :: "node \<Rightarrow> string \<Rightarrow> node" where
  "child_node n key = (case prop_of n key of Some (Child d) \<Rightarrow> d | _ \<Rightarrow> Absent)"

definition children_nodes :: "node \<Rightarrow> string \<Rightarrow> node list" where
  "children_nodes n key = (case prop_of n key of Some (Children ds) \<Rightarrow> ds | _ \<Rightarrow> [])"

lemma size_prop_of: "prop_of n key = Some p \<Longrightarrow> size p < size n"
proof (induction n key rule: prop_of.induct)
  case (2 k sp fs key)
  then have "(key, p) \<in> set fs" by (simp add: map_of_SomeD)
  then have "size p < size_list (size_prod (\<lambda>_. 0) size) fs"
    by (induction fs) auto
  then show ?case by simp
qed simp

lemma size_child_node: "n \<noteq> Absent \<Longrightarrow> size (child_node n key) < size n"
  using size_prop_of [of n key]
  by (cases n) (auto simp: child_node_def split: option.splits property.splits)

lemma size_children_nodes: "d \<in> set (children_nodes n key) \<Longrightarrow> size d < size n"
proof -
  assume d: "d \<in> set (children_nodes n key)"
  then obtain ds where ds: "prop_of n key = Some (Children ds)" "d \<in> set ds"
    unfolding children_nodes_def
    by (cases "prop_of n key"; cases "the (prop_of n key)") auto
  have "size d \<le> size_list size ds" using ds(2) by (simp add: size_list_estimation')
  also have "\<dots> < size (Children ds)" by simp
  also have "\<dots> < size n" using ds(1) by (rule size_prop_of)
  finally show "size d < size n" .
qed

subsection \<open>References to nodes\<close>

datatype step = Key string | Idx string nat

datatype cursor = Cursor (focus: node) (trail: "(step \<times> node) list")

abbreviation (input) program_cursor :: "node \<Rightarrow> cursor" where
  "program_cursor n \<equiv> Cursor n []"

definition kind :: "cursor \<Rightarrow> string" where
  "kind c = node_kind (focus c)"

definition null :: "cursor \<Rightarrow> bool" where
  "null c \<longleftrightarrow> focus c = Absent"

definition child :: "cursor \<Rightarrow> string \<Rightarrow> cursor" where
  "child c key = Cursor (child_node (focus c) key) ((Key key, focus c) # trail c)"

fun elems_from :: "nat \<Rightarrow> cursor \<Rightarrow> string \<Rightarrow> node list \<Rightarrow> cursor list" where
  "elems_from i c key [] = []"
| "elems_from i c key (d # ds) =
     Cursor d ((Idx key i, focus c) # trail c) # elems_from (Suc i) c key ds"

definition elems :: "cursor \<Rightarrow> string \<Rightarrow> cursor list" where
  "elems c key = elems_from 0 c key (children_nodes (focus c) key)"

definition parent :: "cursor \<Rightarrow> cursor option" where
  "parent c = (case trail c of [] \<Rightarrow> None | (s, p) # t \<Rightarrow> Some (Cursor p t))"

definition prim_of :: "cursor \<Rightarrow> string \<Rightarrow> prim option" where
  "prim_of c key = (case prop_of (focus c) key of Some (Prim v) \<Rightarrow> Some v | _ \<Rightarrow> None)"

definition str_of :: "cursor \<Rightarrow> string \<Rightarrow> string" where
  "str_of c key = (case prim_of c key of Some (PStr s) \<Rightarrow> s | _ \<Rightarrow> '''')"

definition flag_of :: "cursor \<Rightarrow> string \<Rightarrow> bool" where
  "flag_of c key \<longleftrightarrow> prim_of c key = Some (PBool True)"

definition has_prop :: "cursor \<Rightarrow> string \<Rightarrow> bool" where
  "has_prop c key \<longleftrightarrow> prop_of (focus c) key \<noteq> None"

definition startp :: "cursor \<Rightarrow> nat" where
  "startp c = start_pos (node_span (focus c))"

definition endp :: "cursor \<Rightarrow> nat" where
  "endp c = end_pos (node_span (focus c))"

text \<open>\<^verbatim>\<open>node?.type === k\<close> for an optional reference.\<close>

definition kind_is :: "cursor option \<Rightarrow> string \<Rightarrow> bool" where
  "kind_is c k \<longleftrightarrow> (case c of None \<Rightarrow> False | Some d \<Rightarrow> kind d = k)"

text \<open>\<^verbatim>\<open>x ?? null\<close> of a property that may hold null.\<close>

definition opt_child :: "cursor \<Rightarrow> string \<Rightarrow> cursor option" where
  "opt_child c key = (if null (child c key) then None else Some (child c key))"

lemmas cursor_defs [tree_simps] =
  kind_def null_def child_def elems_def parent_def prim_of_def str_of_def flag_of_def
  has_prop_def opt_child_def child_node_def children_nodes_def kind_is_def startp_def endp_def

lemma focus_child [simp]: "focus (child c key) = child_node (focus c) key"
  by (simp add: child_def)

lemma parent_child [simp]: "parent (child c key) = Some c"
  by (cases c) (simp add: parent_def child_def)

lemma parent_elems_from: "d \<in> set (elems_from i c key ds) \<Longrightarrow> parent d = Some c"
  by (induction ds arbitrary: i) (auto simp: parent_def)

lemma parent_elems: "d \<in> set (elems c key) \<Longrightarrow> parent d = Some c"
  by (simp add: elems_def parent_elems_from)

lemma map_focus_elems_from: "map focus (elems_from i c key ds) = ds"
  by (induction ds arbitrary: i) auto

lemma map_focus_elems [simp]: "map focus (elems c key) = children_nodes (focus c) key"
  by (simp add: elems_def map_focus_elems_from)

lemma length_elems [simp]: "length (elems c key) = length (children_nodes (focus c) key)"
  by (metis length_map map_focus_elems)

lemma kind_empty_iff: "focus c = Absent \<Longrightarrow> kind c = ''''"
  by (simp add: kind_def)

lemma kind_not_absent: "kind c = k \<Longrightarrow> k \<noteq> '''' \<Longrightarrow> focus c \<noteq> Absent"
  by (auto simp: kind_def)

lemma size_child: "focus c \<noteq> Absent \<Longrightarrow> size (focus (child c key)) < size (focus c)"
  by (simp add: size_child_node)

lemma size_elems: "d \<in> set (elems c key) \<Longrightarrow> size (focus d) < size (focus c)"
  by (metis imageI list.set_map map_focus_elems size_children_nodes)

subsection \<open>Parents\<close>

fun up :: "(step \<times> node) list \<Rightarrow> cursor list" where
  "up [] = []"
| "up ((s, p) # t) = Cursor p t # up t"

definition ancestors :: "cursor \<Rightarrow> cursor list" where
  "ancestors c = up (trail c)"

lemma ancestors_parent:
  "ancestors c = (case parent c of None \<Rightarrow> [] | Some p \<Rightarrow> p # ancestors p)"
  by (auto simp: ancestors_def parent_def split: list.split)

lemma ancestors_child [simp]: "ancestors (child c key) = c # ancestors c"
  using ancestors_parent [of "child c key"] by simp

lemma ancestors_elem: "d \<in> set (elems c key) \<Longrightarrow> ancestors d = c # ancestors c"
  using ancestors_parent [of d] parent_elems [of d c key] by simp

lemma ancestors_step: "parent c = Some p \<Longrightarrow> ancestors c = p # ancestors p"
  by (simp add: ancestors_parent [of c])

lemma ancestors_top: "parent c = None \<Longrightarrow> ancestors c = []"
  by (simp add: ancestors_parent [of c])

lemma length_up: "length (up t) = length t"
  by (induction t rule: up.induct) auto

lemma length_ancestors [simp]: "length (ancestors c) = length (trail c)"
  by (simp add: ancestors_def length_up)

text \<open>No node is its own ancestor: the loops over parents visit each node once.\<close>

lemma length_trail_up: "p \<in> set (up t) \<Longrightarrow> length (trail p) < length t"
  by (induction t rule: up.induct) auto

lemma not_own_ancestor: "c \<notin> set (ancestors c)"
  using length_trail_up [of c "trail c"] by (auto simp: ancestors_def)

lemma distinct_up: "distinct (up t)"
  by (induction t rule: up.induct) (auto dest: length_trail_up)

lemma distinct_ancestors: "distinct (c # ancestors c)"
  using not_own_ancestor distinct_up by (simp add: ancestors_def)

lemma ancestors_trans: "b \<in> set (ancestors a) \<Longrightarrow> c \<in> set (ancestors b) \<Longrightarrow> c \<in> set (ancestors a)"
proof -
  have "b \<in> set (up t) \<Longrightarrow> c \<in> set (ancestors b) \<Longrightarrow> c \<in> set (up t)" for t
    by (induction t rule: up.induct) (auto simp: ancestors_def)
  then show "b \<in> set (ancestors a) \<Longrightarrow> c \<in> set (ancestors b) \<Longrightarrow> c \<in> set (ancestors a)"
    by (simp add: ancestors_def [of a])
qed

lemma ancestors_drop:
  "d \<le> length (ancestors c) \<Longrightarrow> (c # ancestors c) ! d = a \<Longrightarrow> drop d (c # ancestors c) = a # ancestors a"
proof (induction d arbitrary: c)
  case (Suc d)
  then obtain p where p: "parent c = Some p"
    by (cases "parent c") (auto simp: ancestors_parent [of c])
  with Suc show ?case by (simp add: ancestors_step)
qed simp

lemma ancestors_split:
  assumes "i \<le> length (ancestors c)" and "(c # ancestors c) ! i = a"
    and "j \<le> length (ancestors c)" and "(c # ancestors c) ! j = b"
  shows "i \<le> j \<longleftrightarrow> b \<in> set (a # ancestors a)"
proof -
  let ?l = "c # ancestors c"
  have a: "a # ancestors a = drop i ?l" using ancestors_drop [OF assms(1,2)] by simp
  have dist: "distinct ?l" by (rule distinct_ancestors)
  have "b \<in> set (drop i ?l) \<longleftrightarrow> (\<exists>k. i \<le> k \<and> k < length ?l \<and> ?l ! k = b)"
  proof
    assume "b \<in> set (drop i ?l)"
    then obtain m where "m < length (drop i ?l)" "drop i ?l ! m = b" by (metis in_set_conv_nth)
    then show "\<exists>k. i \<le> k \<and> k < length ?l \<and> ?l ! k = b"
      by (intro exI [of _ "i + m"]) simp
  next
    assume "\<exists>k. i \<le> k \<and> k < length ?l \<and> ?l ! k = b"
    then obtain k where k: "i \<le> k" "k < length ?l" "?l ! k = b" by blast
    then have "drop i ?l ! (k - i) = b" "k - i < length (drop i ?l)" by simp_all
    then show "b \<in> set (drop i ?l)" by (metis nth_mem)
  qed
  also have "\<dots> \<longleftrightarrow> i \<le> j"
  proof -
    have "k = j" if "k < length ?l" "?l ! k = b" for k
      using dist that assms(3,4) by (intro nth_eq_iff_index_eq [THEN iffD1, OF dist]) auto
    with assms(3,4) show ?thesis by (metis length_Cons less_Suc_eq_le)
  qed
  finally show ?thesis by (simp only: a)
qed

text \<open>The loop condition \<^verbatim>\<open>current !== null && current.type !== "Program"\<close> cuts the list.\<close>

definition below_program :: "cursor list \<Rightarrow> cursor list" where
  "below_program cs = takeWhile (\<lambda>c. kind c \<noteq> ''Program'') cs"

lemma below_program_Nil [simp]: "below_program [] = []"
  by (simp add: below_program_def)

lemma below_program_Cons [simp]:
  "below_program (c # cs) = (if kind c = ''Program'' then [] else c # below_program cs)"
  by (simp add: below_program_def)

lemma below_program_subset: "set (below_program cs) \<subseteq> set cs"
  by (auto simp: below_program_def dest: set_takeWhileD)

subsection \<open>Identity\<close>

fun step_node :: "node \<Rightarrow> step \<Rightarrow> node" where
  "step_node p (Key k) = child_node p k"
| "step_node p (Idx k i) = (case at_index (children_nodes p k) i of None \<Rightarrow> Absent | Some d \<Rightarrow> d)"

fun valid_trail :: "node \<Rightarrow> (step \<times> node) list \<Rightarrow> bool" where
  "valid_trail f [] = True"
| "valid_trail f ((s, p) # t) = (step_node p s = f \<and> valid_trail p t)"

fun root_of :: "node \<Rightarrow> (step \<times> node) list \<Rightarrow> node" where
  "root_of f [] = f"
| "root_of f ((s, p) # t) = root_of p t"

definition valid :: "cursor \<Rightarrow> bool" where
  "valid c \<longleftrightarrow> valid_trail (focus c) (trail c)"

definition root :: "cursor \<Rightarrow> node" where
  "root c = root_of (focus c) (trail c)"

definition path :: "cursor \<Rightarrow> step list" where
  "path c = rev (map fst (trail c))"

lemma cursor_identity_aux:
  "valid_trail f t \<Longrightarrow> valid_trail f' t' \<Longrightarrow> root_of f t = root_of f' t' \<Longrightarrow>
   map fst t = map fst t' \<Longrightarrow> f = f' \<and> t = t'"
proof (induction f t arbitrary: f' t' rule: valid_trail.induct)
  case (2 f s p t)
  from "2.prems"(4) obtain p' u where t': "t' = (s, p') # u" by (cases t') auto
  with "2.prems" have "p = p' \<and> t = u" by (intro "2.IH") simp_all
  with "2.prems" t' show ?case by simp
qed simp

lemma cursor_identity:
  assumes "valid c" and "valid d" and "root c = root d"
  shows "c = d \<longleftrightarrow> path c = path d"
  using assms cursor_identity_aux [of "focus c" "trail c" "focus d" "trail d"]
  unfolding valid_def root_def path_def by (metis cursor.expand rev_is_rev_conv)

lemma valid_program [simp]: "valid (Cursor n [])"
  by (simp add: valid_def)

lemma valid_child: "valid c \<Longrightarrow> valid (child c key)"
  by (simp add: valid_def child_def)

lemma nth_elems_from:
  "i < length ds \<Longrightarrow>
   elems_from k c key ds ! i = Cursor (ds ! i) ((Idx key (k + i), focus c) # trail c)"
  by (induction ds arbitrary: k i) (auto simp: nth_Cons split: nat.split)

lemma valid_elems: "valid c \<Longrightarrow> d \<in> set (elems c key) \<Longrightarrow> valid d"
proof -
  assume c: "valid c" and "d \<in> set (elems c key)"
  then obtain i where i: "i < length (children_nodes (focus c) key)" "d = elems c key ! i"
    by (auto simp: in_set_conv_nth)
  then have "d = Cursor (children_nodes (focus c) key ! i) ((Idx key i, focus c) # trail c)"
    by (simp add: elems_def nth_elems_from)
  with c i(1) show "valid d" by (simp add: valid_def at_index_def)
qed

lemma root_child [simp]: "root (child c key) = root c"
  by (simp add: root_def child_def)

lemma root_elems_from: "d \<in> set (elems_from i c key ds) \<Longrightarrow> root d = root c"
  by (induction ds arbitrary: i) (auto simp: root_def)

lemma root_elems: "d \<in> set (elems c key) \<Longrightarrow> root d = root c"
  by (simp add: elems_def root_elems_from)

subsection \<open>Unwrapping\<close>

text \<open>
  The source unwraps syntax-only nodes with loops of the form
  \<^verbatim>\<open>while (p(current)) current = current.key\<close>; the tree below \<open>current\<close> shrinks.
\<close>

function unwrap_while :: "(cursor \<Rightarrow> bool) \<Rightarrow> string \<Rightarrow> cursor \<Rightarrow> cursor" where
  "unwrap_while P key c =
     (if focus c \<noteq> Absent \<and> P c then unwrap_while P key (child c key) else c)"
  by pat_completeness auto
termination
  by (relation "measure (\<lambda>(P, key, c). size (focus c))") (auto simp: size_child_node)

declare unwrap_while.simps [simp del]

lemma unwrap_while_stop: "\<not> P c \<Longrightarrow> unwrap_while P key c = c"
  by (simp add: unwrap_while.simps)

lemma unwrap_while_step:
  "focus c \<noteq> Absent \<Longrightarrow> P c \<Longrightarrow> unwrap_while P key c = unwrap_while P key (child c key)"
  by (simp add: unwrap_while.simps [of P key c])

lemma unwrap_while_result:
  "focus (unwrap_while P key c) = Absent \<or> \<not> P (unwrap_while P key c)"
proof (induction P key c rule: unwrap_while.induct)
  case (1 P key c)
  then show ?case
    by (cases "focus c \<noteq> Absent \<and> P c") (auto simp: unwrap_while.simps [of P key c])
qed

lemma unwrap_while_idem [simp]:
  "unwrap_while P key (unwrap_while P key c) = unwrap_while P key c"
  using unwrap_while_result [of P key c]
  by (auto simp: unwrap_while.simps [of P key "unwrap_while P key c"])

lemma size_unwrap_while: "size (focus (unwrap_while P key c)) \<le> size (focus c)"
proof (induction P key c rule: unwrap_while.induct)
  case (1 P key c)
  then show ?case
    using size_child [of c key]
    by (cases "focus c \<noteq> Absent \<and> P c") (auto simp: unwrap_while.simps [of P key c])
qed

lemma valid_unwrap_while: "valid c \<Longrightarrow> valid (unwrap_while P key c)"
proof (induction P key c rule: unwrap_while.induct)
  case (1 P key c)
  then show ?case
    by (cases "focus c \<noteq> Absent \<and> P c") (auto simp: unwrap_while.simps [of P key c] valid_child)
qed

subsection \<open>Traversal by visitor keys\<close>

text \<open>
  The generic walks of the source read \<^verbatim>\<open>visitorKeys[node.type] ?? []\<close> and recurse into every
  property that is a node or an array with nodes in it.
\<close>

type_synonym visitor_keys = "string \<Rightarrow> string list option"

definition keys_for :: "visitor_keys \<Rightarrow> cursor \<Rightarrow> string list" where
  "keys_for vk c = (case vk (kind c) of None \<Rightarrow> [] | Some ks \<Rightarrow> ks)"

definition nodes_at :: "cursor \<Rightarrow> string \<Rightarrow> cursor list" where
  "nodes_at c key =
     (case prop_of (focus c) key of
        Some (Child d) \<Rightarrow> filter (Not \<circ> null) [child c key]
      | Some (Children ds) \<Rightarrow> filter (Not \<circ> null) (elems c key)
      | _ \<Rightarrow> [])"

definition visit_children :: "visitor_keys \<Rightarrow> cursor \<Rightarrow> cursor list" where
  "visit_children vk c = concat (map (nodes_at c) (keys_for vk c))"

lemma nodes_at_cases:
  "d \<in> set (nodes_at c key) \<Longrightarrow> (d = child c key \<or> d \<in> set (elems c key)) \<and> focus d \<noteq> Absent \<and> focus c \<noteq> Absent"
proof (cases "prop_of (focus c) key")
  case None
  then show "d \<in> set (nodes_at c key) \<Longrightarrow> ?thesis" by (simp add: nodes_at_def)
next
  case (Some p)
  then have "focus c \<noteq> Absent" by auto
  with Some show "d \<in> set (nodes_at c key) \<Longrightarrow> ?thesis"
    by (cases p) (auto simp: nodes_at_def null_def split: if_splits)
qed

lemma visit_children_cases:
  assumes "d \<in> set (visit_children vk c)"
  obtains key where "d = child c key \<or> d \<in> set (elems c key)" "focus d \<noteq> Absent" "focus c \<noteq> Absent"
  using assms nodes_at_cases by (fastforce simp: visit_children_def)

lemma size_visit_children: "d \<in> set (visit_children vk c) \<Longrightarrow> size (focus d) < size (focus c)"
  by (erule visit_children_cases) (auto simp: size_child_node size_elems)

lemma parent_visit_children: "d \<in> set (visit_children vk c) \<Longrightarrow> parent d = Some c"
  by (erule visit_children_cases) (auto simp: parent_elems)

function preorder :: "visitor_keys \<Rightarrow> cursor \<Rightarrow> cursor list" where
  "preorder vk c = c # concat (map (preorder vk) (visit_children vk c))"
  by pat_completeness auto
termination
  by (relation "measure (\<lambda>(vk, c). size (focus c))") (auto simp: size_visit_children)

declare preorder.simps [simp del]

lemma preorder_self: "c \<in> set (preorder vk c)"
  by (subst preorder.simps) simp

lemma preorder_valid: "valid c \<Longrightarrow> d \<in> set (preorder vk c) \<Longrightarrow> valid d"
proof (induction vk c rule: preorder.induct)
  case (1 vk c)
  then consider "d = c" | e where "e \<in> set (visit_children vk c)" "d \<in> set (preorder vk e)"
    by (auto simp: preorder.simps [of vk c])
  then show ?case
  proof cases
    case (2 e)
    then have "valid e" using 1(2)
      by (auto elim!: visit_children_cases simp: valid_child valid_elems)
    with 2 show ?thesis using 1(1) by blast
  qed (use 1 in simp)
qed

lemma preorder_ancestor: "d \<in> set (preorder vk c) \<Longrightarrow> c \<in> set (d # ancestors d)"
proof (induction vk c rule: preorder.induct)
  case (1 vk c)
  show ?case
  proof (cases "d = c")
    case False
    with 1 obtain e where e: "e \<in> set (visit_children vk c)" "d \<in> set (preorder vk e)"
      by (auto simp: preorder.simps [of vk c])
    with 1 have "e \<in> set (d # ancestors d)" by blast
    moreover have "c \<in> set (ancestors e)"
      using parent_visit_children [OF e(1)] by (simp add: ancestors_step)
    ultimately show ?thesis
      by (auto intro: ancestors_trans)
  qed simp
qed

subsection \<open>Building trees\<close>

text \<open>Constructors for the concrete programs of the witnesses; positions are all zero.\<close>

definition nd :: "string \<Rightarrow> (string \<times> property) list \<Rightarrow> node" where
  [tree_simps]: "nd k fs = Node k \<lparr>start_pos = 0, end_pos = 0, start_line = 0, end_line = 0\<rparr> fs"

definition ident :: "string \<Rightarrow> node" where
  [tree_simps]: "ident s = nd ''Identifier'' [(''name'', Prim (PStr s))]"

definition type_ref :: "string \<Rightarrow> node list \<Rightarrow> node" where
  [tree_simps]: "type_ref s args =
     nd ''TSTypeReference''
       ((''typeName'', Child (ident s)) #
        (if args = [] then []
         else [(''typeArguments'',
                Child (nd ''TSTypeParameterInstantiation'' [(''params'', Children args)]))]))"

definition type_annotation :: "node \<Rightarrow> node" where
  [tree_simps]: "type_annotation t = nd ''TSTypeAnnotation'' [(''typeAnnotation'', Child t)]"

definition union_type :: "node list \<Rightarrow> node" where
  [tree_simps]: "union_type ts = nd ''TSUnionType'' [(''types'', Children ts)]"

definition type_param :: "string \<Rightarrow> node" where
  [tree_simps]: "type_param s = nd ''TSTypeParameter'' [(''name'', Child (ident s))]"

definition type_alias_decl :: "string \<Rightarrow> string list \<Rightarrow> node \<Rightarrow> node" where
  [tree_simps]: "type_alias_decl s ps t =
     nd ''TSTypeAliasDeclaration''
       [(''id'', Child (ident s)),
        (''typeParameters'',
          Child (if ps = [] then Absent
                 else nd ''TSTypeParameterDeclaration'' [(''params'', Children (map type_param ps))])),
        (''typeAnnotation'', Child t)]"

definition program_node :: "node list \<Rightarrow> node" where
  [tree_simps]: "program_node body = nd ''Program'' [(''body'', Children body)]"

text \<open>The visitor keys of the node kinds that occur in the examples.\<close>

definition example_keys :: visitor_keys where
  "example_keys =
     map_of [(''Program'', [''body'']),
             (''TSTypeAliasDeclaration'', [''id'', ''typeParameters'', ''typeAnnotation'']),
             (''TSTypeParameterDeclaration'', [''params'']),
             (''TSTypeParameterInstantiation'', [''params'']),
             (''TSTypeParameter'', [''name'', ''constraint'', ''default'']),
             (''TSTypeReference'', [''typeName'', ''typeArguments'']),
             (''TSTypeAnnotation'', [''typeAnnotation'']),
             (''TSUnionType'', [''types'']),
             (''TSParenthesizedType'', [''typeAnnotation'']),
             (''BlockStatement'', [''body''])]"

end
