(* ===== verification/Lexical_Types.thy ===== *)
theory Lexical_Types
  imports Ast
begin

text \<open>
  \<^verbatim>\<open>shared/lexical-type-parameters.ts\<close>: the type binders in scope at a node.

  A binder is a type parameter of an enclosing declaration, the key of an enclosing mapped
  type (seen from its name type or its value type only), or an \<^verbatim>\<open>infer\<close> variable of an
  enclosing conditional type (seen from its true branch only). The loop walks from the node
  to the program and remembers the node it came from.
\<close>

definition identifier_name :: "cursor \<Rightarrow> string" where
  "identifier_name c = str_of c ''name''"

definition type_parameter_name :: "cursor \<Rightarrow> string" where
  "type_parameter_name p = identifier_name (child p ''name'')"

definition type_parameters :: "cursor \<Rightarrow> cursor list" where
  "type_parameters c = elems (child c ''typeParameters'') ''params''"

function collectInferTypeParameterNames ::
    "visitor_keys \<Rightarrow> cursor \<Rightarrow> string set \<Rightarrow> string set" where
  "collectInferTypeParameterNames vk c names =
     fold (\<lambda>d ns. collectInferTypeParameterNames vk d ns) (visit_children vk c)
       (if kind c = ''TSInferType''
        then insert (type_parameter_name (child c ''typeParameter'')) names else names)"
  by pat_completeness auto
termination
  by (relation "measure (\<lambda>(vk, c, names). size (focus c))") (auto simp: size_visit_children)

declare collectInferTypeParameterNames.simps [simp del]

definition scope_binders :: "visitor_keys \<Rightarrow> cursor \<Rightarrow> cursor \<Rightarrow> string set \<Rightarrow> string set" where
  "scope_binders vk descendant current names =
     (let names1 = (if has_prop current ''typeParameters''
                    then names \<union> set (map type_parameter_name (type_parameters current))
                    else names);
          names2 = (if kind current = ''TSMappedType'' \<and>
                       (descendant = child current ''nameType'' \<or>
                        descendant = child current ''typeAnnotation'')
                    then insert (identifier_name (child current ''key'')) names1 else names1)
      in if kind current = ''TSConditionalType'' \<and> descendant = child current ''trueType''
         then collectInferTypeParameterNames vk (child current ''extendsType'') names2
         else names2)"

fun walk_binders :: "visitor_keys \<Rightarrow> cursor \<Rightarrow> cursor list \<Rightarrow> string set \<Rightarrow> string set" where
  "walk_binders vk descendant [] names = names"
| "walk_binders vk descendant (current # rest) names =
     (if kind current = ''Program'' then names
      else walk_binders vk current rest (scope_binders vk descendant current names))"

definition lexicalTypeParameterNames :: "cursor \<Rightarrow> visitor_keys \<Rightarrow> string set" where
  "lexicalTypeParameterNames node vk = walk_binders vk node (node # ancestors node) {}"

subsection \<open>What the walks collect\<close>

definition infer_names :: "cursor list \<Rightarrow> string set" where
  "infer_names cs =
     {type_parameter_name (child c ''typeParameter'') | c. c \<in> set cs \<and> kind c = ''TSInferType''}"

lemma infer_names_simps [simp]:
  "infer_names [] = {}"
  "infer_names (c # cs) =
     (if kind c = ''TSInferType'' then {type_parameter_name (child c ''typeParameter'')} else {})
     \<union> infer_names cs"
  "infer_names (cs @ ds) = infer_names cs \<union> infer_names ds"
  by (auto simp: infer_names_def)

lemma collect_infer_preorder:
  "collectInferTypeParameterNames vk c names = names \<union> infer_names (preorder vk c)"
proof (induction vk c names rule: collectInferTypeParameterNames.induct)
  case (1 vk c names)
  have fold: "fold (\<lambda>d ns. collectInferTypeParameterNames vk d ns) ds ns =
      ns \<union> infer_names (concat (map (preorder vk) ds))"
    if "set ds \<subseteq> set (visit_children vk c)" for ds ns
    using that
  proof (induction ds arbitrary: ns)
    case (Cons d ds)
    then show ?case using "1.IH" [of d] by auto
  qed simp
  show ?case
    by (simp add: collectInferTypeParameterNames.simps [of vk c names] preorder.simps [of vk c]
        fold [OF order_refl] Un_assoc)
qed

text \<open>The binders one enclosing node adds for a use that reaches it through \<open>descendant\<close>.\<close>

definition binders_of :: "visitor_keys \<Rightarrow> cursor \<Rightarrow> cursor \<Rightarrow> string set" where
  "binders_of vk descendant current = scope_binders vk descendant current {}"

lemma scope_binders_split:
  "scope_binders vk descendant current names = names \<union> binders_of vk descendant current"
  by (auto simp: binders_of_def scope_binders_def Let_def collect_infer_preorder)

lemma walk_binders_acc:
  "walk_binders vk d cs names = names \<union> walk_binders vk d cs {}"
proof (induction cs arbitrary: d names)
  case (Cons c cs)
  show ?case
    using Cons.IH [of c "names \<union> binders_of vk d c"] Cons.IH [of c "binders_of vk d c"]
    by (simp add: scope_binders_split Un_assoc)
qed simp

text \<open>
  The steps of the walk: pairs of a node and the node the walk came from, up to the program.
\<close>

definition scope_steps :: "cursor \<Rightarrow> (cursor \<times> cursor) list" where
  "scope_steps c =
     (let above = below_program (c # ancestors c) in zip (c # above) above)"

lemma walk_binders_steps:
  "walk_binders vk d cs {} =
     (\<Union>(a, b) \<in> set (zip (d # below_program cs) (below_program cs)). binders_of vk a b)"
proof (induction cs arbitrary: d)
  case (Cons c cs)
  show ?case
    using Cons.IH [of c] walk_binders_acc [of vk c cs "binders_of vk d c"]
    by (auto simp: scope_binders_split)
qed simp

lemma lexical_names_steps:
  "lexicalTypeParameterNames c vk = (\<Union>(a, b) \<in> set (scope_steps c). binders_of vk a b)"
  by (simp only: lexicalTypeParameterNames_def walk_binders_steps scope_steps_def Let_def)

lemma type_parameters_in_scope:
  assumes "b \<in> set (below_program (c # ancestors c))"
    and "p \<in> set (type_parameters b)"
  shows "type_parameter_name p \<in> lexicalTypeParameterNames c vk"
proof -
  let ?bs = "below_program (c # ancestors c)"
  from assms(1) obtain i where i: "i < length ?bs" "b = ?bs ! i"
    by (metis in_set_conv_nth)
  then have mem: "((c # ?bs) ! i, b) \<in> set (zip (c # ?bs) ?bs)"
    by (auto simp: set_zip)
  have "has_prop b ''typeParameters''"
  proof (rule ccontr)
    assume "\<not> has_prop b ''typeParameters''"
    then have "type_parameters b = []"
      by (simp add: type_parameters_def elems_def has_prop_def child_node_def children_nodes_def)
    with assms(2) show False by simp
  qed
  with assms(2) have "type_parameter_name p \<in> binders_of vk a b" for a
    by (auto simp: binders_of_def scope_binders_def Let_def collect_infer_preorder)
  with mem show ?thesis
    unfolding lexical_names_steps scope_steps_def Let_def by blast
qed

subsection \<open>Properties\<close>

text \<open>
  C27: the names that lexicalTypeParameterNames returns for a node are exactly the type
  parameters of the node and of its ancestors below the program, the keys of the mapped types
  entered through their name type or value type, and the infer variables anywhere in the
  extends clause of the conditional types entered through their true branch.
\<close>

theorem lexical_binders:
  "name \<in> lexicalTypeParameterNames c vk \<longleftrightarrow>
     (\<exists>(a, b) \<in> set (scope_steps c).
        (\<exists>p \<in> set (type_parameters b). type_parameter_name p = name) \<or>
        (kind b = ''TSMappedType'' \<and> a \<in> {child b ''nameType'', child b ''typeAnnotation''} \<and>
         identifier_name (child b ''key'') = name) \<or>
        (kind b = ''TSConditionalType'' \<and> a = child b ''trueType'' \<and>
         (\<exists>i \<in> set (preorder vk (child b ''extendsType'')).
            kind i = ''TSInferType'' \<and> type_parameter_name (child i ''typeParameter'') = name)))"
proof -
  have none: "type_parameters b = []" if "\<not> has_prop b ''typeParameters''" for b
    using that
    by (simp add: type_parameters_def elems_def has_prop_def child_node_def children_nodes_def)
  have "name \<in> binders_of vk a b \<longleftrightarrow>
      (\<exists>p \<in> set (type_parameters b). type_parameter_name p = name) \<or>
      (kind b = ''TSMappedType'' \<and> a \<in> {child b ''nameType'', child b ''typeAnnotation''} \<and>
         identifier_name (child b ''key'') = name) \<or>
      (kind b = ''TSConditionalType'' \<and> a = child b ''trueType'' \<and>
         name \<in> infer_names (preorder vk (child b ''extendsType'')))" for a b
    using none [of b]
    by (cases "has_prop b ''typeParameters''")
      (auto simp: binders_of_def scope_binders_def Let_def collect_infer_preorder)
  moreover have "name \<in> infer_names cs \<longleftrightarrow>
      (\<exists>i \<in> set cs. kind i = ''TSInferType'' \<and> type_parameter_name (child i ''typeParameter'') = name)"
    for cs
    by (auto simp: infer_names_def)
  ultimately show ?thesis by (simp add: lexical_names_steps case_prod_beta)
qed

end
