(* ===== verification/Type_Bindings.thy ===== *)
theory Type_Bindings
  imports Lexical_Types
begin

text \<open>
  \<^verbatim>\<open>shared/type-alias-resolution.ts\<close>, first half: every declaration of a type name in a
  program is collected once, and a use of a name sees the declarations of the nearest
  enclosing scope. Declarations that are not aliases (classes, enums, interfaces, imports)
  are kept as competing bindings that hide an alias of the same name.
\<close>

record type_binding =
  balias :: "cursor option"
  bname :: string
  bscope :: cursor

type_synonym bindings_by_name = "string \<Rightarrow> type_binding list option"

record type_alias_environment =
  aliases :: "cursor list"
  bindingsByName :: bindings_by_name
  env_visitor_keys :: visitor_keys

definition type_scope_kinds :: "string list" where
  "type_scope_kinds =
     [''Program'', ''BlockStatement'', ''TSModuleBlock'', ''StaticBlock'', ''SwitchStatement'']"

definition enclosingTypeScope :: "cursor \<Rightarrow> cursor" where
  "enclosingTypeScope node =
     (case find (\<lambda>c. kind c \<in> set type_scope_kinds) (ancestors node) of
        None \<Rightarrow> node | Some c \<Rightarrow> c)"

definition declaredTypeBinding :: "cursor \<Rightarrow> (cursor option \<times> string) option" where
  "declaredTypeBinding node =
     (if kind node = ''TSTypeAliasDeclaration''
      then Some (Some node, identifier_name (child node ''id''))
      else if kind node \<in> {''TSInterfaceDeclaration'', ''TSEnumDeclaration'',
                            ''ClassDeclaration'', ''ClassExpression''}
      then (if null (child node ''id'') then None
            else Some (None, identifier_name (child node ''id'')))
      else if kind node \<in> {''ImportSpecifier'', ''ImportDefaultSpecifier'',
                            ''ImportNamespaceSpecifier''}
      then Some (None, identifier_name (child node ''local''))
      else None)"

definition push_binding :: "bindings_by_name \<Rightarrow> type_binding \<Rightarrow> bindings_by_name" where
  "push_binding m b =
     m(bname b \<mapsto> (case m (bname b) of None \<Rightarrow> [] | Some bs \<Rightarrow> bs) @ [b])"

definition record_binding ::
    "cursor \<Rightarrow> bindings_by_name \<times> cursor list \<Rightarrow> bindings_by_name \<times> cursor list" where
  "record_binding node st =
     (case declaredTypeBinding node of
        None \<Rightarrow> st
      | Some (alias, name) \<Rightarrow>
          (push_binding (fst st)
             \<lparr>balias = alias, bname = name, bscope = enclosingTypeScope node\<rparr>,
           case alias of None \<Rightarrow> snd st | Some a \<Rightarrow> snd st @ [a]))"

function collectTypeBindings ::
    "visitor_keys \<Rightarrow> cursor \<Rightarrow> bindings_by_name \<times> cursor list \<Rightarrow>
     bindings_by_name \<times> cursor list" where
  "collectTypeBindings vk node st =
     fold (\<lambda>d st. collectTypeBindings vk d st) (visit_children vk node) (record_binding node st)"
  by pat_completeness auto
termination
  by (relation "measure (\<lambda>(vk, c, st). size (focus c))") (auto simp: size_visit_children)

declare collectTypeBindings.simps [simp del]

text \<open>
  The environments are cached per program in a \<^verbatim>\<open>WeakMap\<close>: the cache is the state, a miss
  computes the environment and stores it.
\<close>

type_synonym environment_cache = "cursor \<Rightarrow> type_alias_environment option"

definition computeTypeAliasEnvironment :: "cursor \<Rightarrow> visitor_keys \<Rightarrow> type_alias_environment" where
  "computeTypeAliasEnvironment program vk =
     (let (m, as) = collectTypeBindings vk program (\<lambda>_. None, [])
      in \<lparr>aliases = as, bindingsByName = m, env_visitor_keys = vk\<rparr>)"

definition createTypeAliasEnvironment ::
    "cursor \<Rightarrow> visitor_keys \<Rightarrow> environment_cache \<Rightarrow> type_alias_environment \<times> environment_cache" where
  "createTypeAliasEnvironment program vk cache =
     (case cache program of
        Some env \<Rightarrow> (env, cache)
      | None \<Rightarrow> let env = computeTypeAliasEnvironment program vk
                 in (env, cache(program \<mapsto> env)))"

fun distance_in :: "cursor \<Rightarrow> cursor list \<Rightarrow> nat \<Rightarrow> nat option" where
  "distance_in ancestor [] distance = None"
| "distance_in ancestor (current # rest) distance =
     (if current = ancestor then Some distance else distance_in ancestor rest (distance + 1))"

definition ancestorDistance :: "cursor \<Rightarrow> cursor \<Rightarrow> nat option" where
  "ancestorDistance ancestor node = distance_in ancestor (node # ancestors node) 0"

text \<open>One turn of the search loop; the distance \<open>None\<close> is the initial infinity.\<close>

definition nearest_step ::
    "cursor \<Rightarrow> type_binding \<Rightarrow> nat option \<times> type_binding list \<Rightarrow> nat option \<times> type_binding list"
where
  "nearest_step use candidate st =
     (case ancestorDistance (bscope candidate) use of
        None \<Rightarrow> st
      | Some distance \<Rightarrow>
          (case fst st of
             None \<Rightarrow> (Some distance, [candidate])
           | Some nearestDistance \<Rightarrow>
               if distance > nearestDistance then st
               else if distance = nearestDistance then (fst st, snd st @ [candidate])
               else (Some distance, [candidate])))"

definition nearestTypeBindings ::
    "string \<Rightarrow> cursor \<Rightarrow> type_alias_environment \<Rightarrow> type_binding list" where
  "nearestTypeBindings name use env =
     (let candidates = (case bindingsByName env name of None \<Rightarrow> [] | Some bs \<Rightarrow> bs)
      in snd (fold (nearest_step use) candidates (None, [])))"

definition visibleTypeAlias ::
    "string \<Rightarrow> cursor \<Rightarrow> type_alias_environment \<Rightarrow> cursor option" where
  "visibleTypeAlias name use env =
     (if name \<in> lexicalTypeParameterNames use (env_visitor_keys env) then None
      else case nearestTypeBindings name use env of [b] \<Rightarrow> balias b | _ \<Rightarrow> None)"

definition hasVisibleTypeBinding ::
    "string \<Rightarrow> cursor \<Rightarrow> type_alias_environment \<Rightarrow> bool" where
  "hasVisibleTypeBinding name use env \<longleftrightarrow>
     name \<in> lexicalTypeParameterNames use (env_visitor_keys env) \<or>
     length (nearestTypeBindings name use env) > 0"

subsection \<open>Collection is a filter of the nodes in source order\<close>

definition binding_of :: "cursor \<Rightarrow> type_binding option" where
  "binding_of node =
     map_option (\<lambda>(alias, name).
       \<lparr>balias = alias, bname = name, bscope = enclosingTypeScope node\<rparr>) (declaredTypeBinding node)"

definition bindings_in :: "cursor list \<Rightarrow> type_binding list" where
  "bindings_in cs = List.map_filter binding_of cs"

lemma bindings_in_simps [simp]:
  "bindings_in [] = []"
  "bindings_in (c # cs) = (case binding_of c of None \<Rightarrow> [] | Some b \<Rightarrow> [b]) @ bindings_in cs"
  "bindings_in (cs @ ds) = bindings_in cs @ bindings_in ds"
  by (auto simp: bindings_in_def List.map_filter_def split: option.splits)

definition entries :: "bindings_by_name \<Rightarrow> string \<Rightarrow> type_binding list" where
  "entries m name = (case m name of None \<Rightarrow> [] | Some bs \<Rightarrow> bs)"

lemma entries_push [simp]:
  "entries (push_binding m b) name = entries m name @ (if bname b = name then [b] else [])"
  by (simp add: entries_def push_binding_def)

lemma collect_fold_preorder:
  "collectTypeBindings vk c st = fold record_binding (preorder vk c) st"
proof (induction vk c st rule: collectTypeBindings.induct)
  case (1 vk c st)
  have "fold (\<lambda>d st. collectTypeBindings vk d st) ds s =
      fold record_binding (concat (map (preorder vk) ds)) s"
    if "set ds \<subseteq> set (visit_children vk c)" for ds s
    using that
  proof (induction ds arbitrary: s)
    case (Cons d ds)
    then show ?case using "1.IH" [of d] by auto
  qed simp
  from this [OF order_refl] show ?case
    by (simp add: collectTypeBindings.simps [of vk c st] preorder.simps [of vk c])
qed

lemma entries_record:
  "entries (fst (record_binding c st)) name =
     entries (fst st) name @ filter (\<lambda>b. bname b = name) (bindings_in [c])"
  by (auto simp: record_binding_def binding_of_def split: option.splits)

lemma entries_fold_record:
  "entries (fst (fold record_binding cs st)) name =
     entries (fst st) name @ filter (\<lambda>b. bname b = name) (bindings_in cs)"
proof (induction cs arbitrary: st)
  case (Cons c cs)
  then show ?case using entries_record [of c st name] by simp
qed simp

lemma declared_alias:
  "declaredTypeBinding c = Some (Some a, name) \<Longrightarrow>
   a = c \<and> kind c = ''TSTypeAliasDeclaration'' \<and> identifier_name (child c ''id'') = name"
  by (auto simp: declaredTypeBinding_def split: if_splits)

lemma declared_of_alias:
  "kind c = ''TSTypeAliasDeclaration'' \<Longrightarrow>
   declaredTypeBinding c = Some (Some c, identifier_name (child c ''id''))"
  by (simp add: declaredTypeBinding_def)

lemma aliases_fold_record:
  "snd (fold record_binding cs st) =
     snd st @ filter (\<lambda>c. kind c = ''TSTypeAliasDeclaration'') cs"
proof (induction cs arbitrary: st)
  case (Cons c cs)
  have "snd (record_binding c st) =
      snd st @ (if kind c = ''TSTypeAliasDeclaration'' then [c] else [])"
    by (auto simp: record_binding_def declared_of_alias split: option.splits
        dest: declared_alias)
  with Cons show ?case by simp
qed simp

subsection \<open>Invariant of the environments\<close>

definition env_ok :: "type_alias_environment \<Rightarrow> bool" where
  "env_ok env \<longleftrightarrow>
     (\<forall>name. \<forall>b \<in> set (entries (bindingsByName env) name).
        bname b = name \<and>
        (\<forall>a. balias b = Some a \<longrightarrow>
           a \<in> set (aliases env) \<and> identifier_name (child a ''id'') = name)) \<and>
     (\<forall>a \<in> set (aliases env). kind a = ''TSTypeAliasDeclaration'')"

lemma compute_entries:
  "entries (bindingsByName (computeTypeAliasEnvironment p vk)) name =
     filter (\<lambda>b. bname b = name) (bindings_in (preorder vk p))"
  by (simp add: computeTypeAliasEnvironment_def collect_fold_preorder entries_fold_record
      case_prod_beta) (simp add: entries_def)

lemma compute_aliases:
  "aliases (computeTypeAliasEnvironment p vk) =
     filter (\<lambda>c. kind c = ''TSTypeAliasDeclaration'') (preorder vk p)"
  by (simp add: computeTypeAliasEnvironment_def collect_fold_preorder aliases_fold_record
      case_prod_beta)

lemma bindings_in_alias:
  "b \<in> set (bindings_in cs) \<Longrightarrow> balias b = Some a \<Longrightarrow>
   a \<in> set cs \<and> kind a = ''TSTypeAliasDeclaration'' \<and> identifier_name (child a ''id'') = bname b"
  by (induction cs) (auto simp: binding_of_def split: option.splits
      dest: declared_alias declared_alias [OF sym])

lemma env_ok_compute: "env_ok (computeTypeAliasEnvironment p vk)"
  using bindings_in_alias by (auto simp: env_ok_def compute_entries compute_aliases)

definition cache_ok :: "visitor_keys \<Rightarrow> environment_cache \<Rightarrow> bool" where
  "cache_ok vk cache \<longleftrightarrow>
     (\<forall>p env. cache p = Some env \<longrightarrow> env = computeTypeAliasEnvironment p vk)"

lemma cache_ok_empty: "cache_ok vk (\<lambda>_. None)"
  by (simp add: cache_ok_def)

lemma create_cached:
  assumes "cache_ok vk cache"
  shows "fst (createTypeAliasEnvironment p vk cache) = computeTypeAliasEnvironment p vk"
    and "cache_ok vk (snd (createTypeAliasEnvironment p vk cache))"
  using assms by (auto simp: createTypeAliasEnvironment_def cache_ok_def Let_def split: option.splits)

subsection \<open>Distances\<close>

lemma distance_in_shift:
  "distance_in a cs n = map_option ((+) n) (distance_in a cs 0)"
proof (induction cs arbitrary: n)
  case (Cons c cs)
  show ?case
    using Cons.IH [of "n + 1"] Cons.IH [of 1]
    by (cases "distance_in a cs 0") auto
qed simp

lemma distance_in_Some:
  "distance_in a cs 0 = Some d \<Longrightarrow> d < length cs \<and> cs ! d = a"
proof (induction cs arbitrary: d)
  case (Cons c cs)
  show ?case
  proof (cases "c = a")
    case False
    with Cons.prems obtain e where "distance_in a cs 0 = Some e" "d = Suc e"
      using distance_in_shift [of a cs 1] by (cases "distance_in a cs 0") auto
    with Cons.IH show ?thesis by simp
  qed (use Cons.prems in simp)
qed simp

lemma distance_in_None: "distance_in a cs n = None \<longleftrightarrow> a \<notin> set cs"
  by (induction cs arbitrary: n) auto

lemma ancestor_distance_None:
  "ancestorDistance a c = None \<longleftrightarrow> a \<notin> set (c # ancestors c)"
  by (simp only: ancestorDistance_def distance_in_None)

lemma ancestor_distance_Some:
  "ancestorDistance a c = Some d \<Longrightarrow> d \<le> length (ancestors c) \<and> (c # ancestors c) ! d = a"
  by (drule distance_in_Some [OF ancestorDistance_def [symmetric, THEN trans]]) simp

text \<open>Two scopes at the same distance from a use are one scope.\<close>

lemma ancestor_distance_inj:
  "ancestorDistance a c = Some d \<Longrightarrow> ancestorDistance b c = Some d \<Longrightarrow> a = b"
  using ancestor_distance_Some by blast

subsection \<open>The search loop selects the bindings at the least distance\<close>

definition dist :: "cursor \<Rightarrow> type_binding \<Rightarrow> nat option" where
  "dist use b = ancestorDistance (bscope b) use"

definition least_distance :: "cursor \<Rightarrow> type_binding list \<Rightarrow> nat option" where
  "least_distance use bs =
     (let ds = List.map_filter (dist use) bs in if ds = [] then None else Some (Min (set ds)))"

definition at_least_distance :: "cursor \<Rightarrow> type_binding list \<Rightarrow> type_binding list" where
  "at_least_distance use bs =
     filter (\<lambda>b. dist use b \<noteq> None \<and> dist use b = least_distance use bs) bs"

lemma least_distance_snoc:
  "least_distance use (bs @ [b]) =
     (case dist use b of
        None \<Rightarrow> least_distance use bs
      | Some d \<Rightarrow> (case least_distance use bs of None \<Rightarrow> Some d | Some e \<Rightarrow> Some (min d e)))"
proof -
  have "List.map_filter (dist use) (bs @ [b]) =
      List.map_filter (dist use) bs @ (case dist use b of None \<Rightarrow> [] | Some d \<Rightarrow> [d])"
    by (simp add: List.map_filter_def split: option.split)
  then show ?thesis
    by (auto simp: least_distance_def Let_def min.commute split: option.split)
qed

lemma least_distance_le:
  assumes "b \<in> set bs" and "dist use b = Some d"
  shows "\<exists>e. least_distance use bs = Some e \<and> e \<le> d"
proof -
  have "d \<in> set (List.map_filter (dist use) bs)"
    using assms by (force simp: List.map_filter_def)
  then show ?thesis
    by (cases "List.map_filter (dist use) bs = []") (auto simp: least_distance_def Let_def)
qed

lemma nearest_loop:
  "fold (nearest_step use) bs (None, []) = (least_distance use bs, at_least_distance use bs)"
proof (induction bs rule: rev_induct)
  case Nil
  show ?case by (simp add: least_distance_def at_least_distance_def List.map_filter_def)
next
  case (snoc b bs)
  let ?st = "(least_distance use bs, at_least_distance use bs)"
  have step: "fold (nearest_step use) (bs @ [b]) (None, []) = nearest_step use b ?st"
    by (simp add: snoc.IH)
  have "nearest_step use b ?st =
      (least_distance use (bs @ [b]), at_least_distance use (bs @ [b]))" (is ?thesis)
  proof (cases "dist use b")
    case None
    then show ?thesis
      by (simp add: nearest_step_def dist_def least_distance_snoc at_least_distance_def)
  next
    case (Some d)
    show ?thesis
    proof (cases "least_distance use bs")
      case None
      then have far: "\<forall>x\<in>set bs. dist use x = None"
        using least_distance_le [of _ bs use] by (metis not_None_eq option.distinct(1))
      then have "at_least_distance use bs = []"
        by (simp add: at_least_distance_def filter_empty_conv)
      with None Some far show ?thesis
        by (auto simp: nearest_step_def dist_def least_distance_snoc at_least_distance_def)
    next
      case Least: (Some e)
      consider "e < d" | "d = e" | "d < e" by linarith
      then show ?thesis
      proof cases
        case 3
        then have "\<forall>x\<in>set bs. dist use x \<noteq> Some d"
          using least_distance_le [of _ bs use d] Least by fastforce
        then have "at_least_distance use (bs @ [b]) = [b]"
          using Some Least 3
          by (auto simp: at_least_distance_def least_distance_snoc filter_empty_conv)
        with 3 Some Least show ?thesis
          by (simp add: nearest_step_def dist_def least_distance_snoc)
      qed (use Some Least in \<open>auto simp: nearest_step_def dist_def least_distance_snoc
            at_least_distance_def min_def\<close>)
    qed
  qed
  then show ?case by (simp only: step)
qed

lemma nearest_eq:
  "nearestTypeBindings name use env =
     at_least_distance use (entries (bindingsByName env) name)"
  by (simp add: nearestTypeBindings_def nearest_loop entries_def)

lemma nearest_same_scope:
  assumes "b \<in> set (nearestTypeBindings name use env)"
    and "b' \<in> set (nearestTypeBindings name use env)"
  shows "bscope b = bscope b'"
proof -
  from assms have "dist use b' = dist use b" and "dist use b \<noteq> None"
    unfolding nearest_eq at_least_distance_def set_filter mem_Collect_eq by argo+
  then obtain d where "dist use b = Some d" and "dist use b' = Some d" by auto
  then show ?thesis unfolding dist_def by (rule ancestor_distance_inj)
qed

lemma visible_alias_in_env:
  assumes "env_ok env" and "visibleTypeAlias name use env = Some a"
  shows "a \<in> set (aliases env)" and "identifier_name (child a ''id'') = name"
proof -
  from assms(2) obtain b where "nearestTypeBindings name use env = [b]" "balias b = Some a"
    by (auto simp: visibleTypeAlias_def split: if_splits list.splits)
  then have "b \<in> set (entries (bindingsByName env) name)" and "balias b = Some a"
    by (auto simp: nearest_eq at_least_distance_def dest: filter_eq_ConsD)
  with assms(1) show "a \<in> set (aliases env)" and "identifier_name (child a ''id'') = name"
    by (auto simp: env_ok_def)
qed

subsection \<open>The selected bindings are the innermost ones\<close>

text \<open>\<open>encloses scope use\<close>: the scope is the use or one of its ancestors.\<close>

lemma ancestor_distance_member:
  "a \<in> set (c # ancestors c) \<longleftrightarrow> (\<exists>d. ancestorDistance a c = Some d)"
  using ancestor_distance_None [of a c] by (metis not_None_eq)

lemma ancestor_distance_le:
  assumes "ancestorDistance a c = Some i" and "ancestorDistance b c = Some j"
  shows "i \<le> j \<longleftrightarrow> b \<in> set (a # ancestors a)"
  using ancestor_distance_Some [OF assms(1)] ancestor_distance_Some [OF assms(2)]
  by (intro ancestors_split) auto

definition encloses :: "cursor \<Rightarrow> cursor \<Rightarrow> bool" where
  "encloses scope use \<longleftrightarrow> scope \<in> set (use # ancestors use)"

definition declarations_of :: "cursor \<Rightarrow> visitor_keys \<Rightarrow> string \<Rightarrow> type_binding list" where
  "declarations_of p vk name = filter (\<lambda>b. bname b = name) (bindings_in (preorder vk p))"

lemma least_distance_Some:
  "least_distance use bs = Some d \<Longrightarrow> (\<exists>b\<in>set bs. dist use b = Some d) \<and>
    (\<forall>b\<in>set bs. \<forall>e. dist use b = Some e \<longrightarrow> d \<le> e)"
proof -
  assume d: "least_distance use bs = Some d"
  let ?ds = "List.map_filter (dist use) bs"
  from d have ne: "?ds \<noteq> []" "d = Min (set ?ds)"
    by (auto simp: least_distance_def Let_def split: if_splits)
  then have "d \<in> set ?ds" by (metis List.finite_set Min_in set_empty)
  then have "\<exists>b\<in>set bs. dist use b = Some d" by (auto simp: List.map_filter_def)
  moreover have "d \<le> e" if "b \<in> set bs" "dist use b = Some e" for b e
    using least_distance_le [OF that] d by simp
  ultimately show ?thesis by blast
qed

lemma nearest_iff_innermost:
  "b \<in> set (nearestTypeBindings name use (computeTypeAliasEnvironment p vk)) \<longleftrightarrow>
     b \<in> set (declarations_of p vk name) \<and> encloses (bscope b) use \<and>
     (\<forall>b' \<in> set (declarations_of p vk name).
        encloses (bscope b') use \<longrightarrow> encloses (bscope b') (bscope b))"
proof -
  let ?bs = "declarations_of p vk name"
  have mem: "b \<in> set (nearestTypeBindings name use (computeTypeAliasEnvironment p vk)) \<longleftrightarrow>
     b \<in> set ?bs \<and> dist use b \<noteq> None \<and> dist use b = least_distance use ?bs"
    by (simp add: nearest_eq compute_entries at_least_distance_def declarations_of_def)
  have enc: "encloses (bscope x) use \<longleftrightarrow> (\<exists>d. dist use x = Some d)" for x
    unfolding encloses_def dist_def by (rule ancestor_distance_member)
  have le: "i \<le> j \<longleftrightarrow> encloses (bscope y) (bscope x)"
    if "dist use x = Some i" "dist use y = Some j" for x y i j
    using that unfolding encloses_def dist_def by (rule ancestor_distance_le)
  show ?thesis
  proof (cases "b \<in> set ?bs \<and> (\<exists>d. dist use b = Some d)")
    case True
    then obtain d where d: "b \<in> set ?bs" "dist use b = Some d" by blast
    obtain e where e: "least_distance use ?bs = Some e" "e \<le> d"
      using least_distance_le [OF d] by blast
    obtain b0 where b0: "b0 \<in> set ?bs" "dist use b0 = Some e"
      using least_distance_Some [OF e(1)] by blast
    have "dist use b = least_distance use ?bs \<longleftrightarrow> d \<le> e" using d e by simp
    also have "\<dots> \<longleftrightarrow> (\<forall>x\<in>set ?bs. \<forall>j. dist use x = Some j \<longrightarrow> d \<le> j)"
      using b0 least_distance_Some [OF e(1)] by fastforce
    also have "\<dots> \<longleftrightarrow> (\<forall>x\<in>set ?bs. encloses (bscope x) use \<longrightarrow> encloses (bscope x) (bscope b))"
      using le [OF d(2)] enc by blast
    finally show ?thesis using d mem enc by auto
  qed (use mem enc in auto)
qed

lemma bindings_in_scope:
  "b \<in> set (bindings_in cs) \<Longrightarrow> balias b = Some a \<Longrightarrow> bscope b = enclosingTypeScope a"
  by (induction cs) (auto simp: binding_of_def split: option.splits
      dest: declared_alias declared_alias [OF sym])

lemma encloses_antisym: "encloses a b \<Longrightarrow> encloses b a \<Longrightarrow> a = b"
  using ancestors_trans not_own_ancestor unfolding encloses_def by (metis set_ConsD)

lemma visible_alias_nearest:
  assumes "visibleTypeAlias name use (computeTypeAliasEnvironment p vk) = Some a"
  obtains b where "nearestTypeBindings name use (computeTypeAliasEnvironment p vk) = [b]"
    and "balias b = Some a" and "name \<notin> lexicalTypeParameterNames use vk"
    and "bscope b = enclosingTypeScope a"
    and "a \<in> set (preorder vk p)" and "kind a = ''TSTypeAliasDeclaration''"
    and "identifier_name (child a ''id'') = name"
proof -
  from assms obtain b where b: "nearestTypeBindings name use (computeTypeAliasEnvironment p vk) = [b]"
    "balias b = Some a" "name \<notin> lexicalTypeParameterNames use vk"
    by (auto simp: visibleTypeAlias_def computeTypeAliasEnvironment_def case_prod_beta
        split: if_splits list.splits)
  then have "b \<in> set (declarations_of p vk name)"
    using nearest_iff_innermost [of b name use p vk] by simp
  then have mem: "b \<in> set (bindings_in (preorder vk p))" and name: "bname b = name"
    by (simp_all add: declarations_of_def)
  show thesis
    using b name bindings_in_alias [OF mem b(2)] bindings_in_scope [OF mem b(2)]
    by (intro that [of b]) simp_all
qed

subsection \<open>Requests through the cache\<close>

primrec request_environments ::
    "(cursor \<times> visitor_keys) list \<Rightarrow> environment_cache \<Rightarrow>
     type_alias_environment list \<times> environment_cache" where
  "request_environments [] cache = ([], cache)"
| "request_environments (r # rs) cache =
     (let (env, cache1) = createTypeAliasEnvironment (fst r) (snd r) cache;
          (envs, cache2) = request_environments rs cache1
      in (env # envs, cache2))"

text \<open>The keys of the first request for a program are those \<open>map_of\<close> finds in the requests.\<close>

lemma request_answers:
  "fst (request_environments rs cache) =
     map (\<lambda>r. case cache (fst r) of
                Some env \<Rightarrow> env
              | None \<Rightarrow> computeTypeAliasEnvironment (fst r) (the (map_of rs (fst r)))) rs"
proof (induction rs arbitrary: cache)
  case (Cons r rs)
  have "cache (fst r) = None \<Longrightarrow> snd (createTypeAliasEnvironment (fst r) (snd r) cache) =
      cache(fst r \<mapsto> computeTypeAliasEnvironment (fst r) (snd r))"
    and "cache (fst r) = Some env \<Longrightarrow> createTypeAliasEnvironment (fst r) (snd r) cache = (env, cache)" for env
    by (simp_all add: createTypeAliasEnvironment_def Let_def)
  then show ?case
    by (cases "cache (fst r)"; cases r)
      (auto simp: case_prod_beta Let_def Cons createTypeAliasEnvironment_def split: option.splits)
qed simp

subsection \<open>A program with a shadowed alias\<close>

text \<open>\<^verbatim>\<open>type A = unknown; { type A = object; type B = A; }\<close>\<close>

definition shadow_program :: cursor where
  "shadow_program = Cursor (program_node
     [type_alias_decl ''A'' [] (nd ''TSUnknownKeyword'' []),
      nd ''BlockStatement'' [(''body'', Children
        [type_alias_decl ''A'' [] (nd ''TSObjectKeyword'' []), type_alias_decl ''B'' [] (type_ref ''A'' [])])]]) []"

definition shadow_block :: cursor where
  "shadow_block = elems shadow_program ''body'' ! 1"

definition shadow_use :: cursor where
  "shadow_use = child (elems shadow_block ''body'' ! 1) ''typeAnnotation''"

definition shadow_inner :: cursor where
  "shadow_inner = elems shadow_block ''body'' ! 0"

lemma shadow_visible:
  "visibleTypeAlias ''A'' shadow_use (computeTypeAliasEnvironment shadow_program example_keys) =
     Some shadow_inner"
  by code_simp

subsection \<open>Properties\<close>

text \<open>
  C6: the bindings that the search loop of nearestTypeBindings selects are exactly the
  declarations of the name, anywhere in the program, whose scope encloses the use and is
  enclosed by the scope of every other declaration that the use can see.
\<close>

theorem nearest_bindings_innermost:
  "b \<in> set (nearestTypeBindings name use (computeTypeAliasEnvironment p vk)) \<longleftrightarrow>
     b \<in> set (declarations_of p vk name) \<and> encloses (bscope b) use \<and>
     (\<forall>b' \<in> set (declarations_of p vk name).
        encloses (bscope b') use \<longrightarrow> encloses (bscope b') (bscope b))"
  by (rule nearest_iff_innermost)

theorem nearest_bindings_innermost_witness:
  "\<lparr>balias = Some shadow_inner, bname = ''A'', bscope = shadow_block\<rparr> \<in>
     set (nearestTypeBindings ''A'' shadow_use
       (computeTypeAliasEnvironment shadow_program example_keys))"
  unfolding nearest_bindings_innermost by code_simp

text \<open>
  C2: an alias that visibleTypeAlias returns is a declaration of that name in the program, its
  scope encloses the use, no type parameter in scope hides it, and every other declaration of
  the name that the use can see (alias, interface, class, enum or import) is strictly further out.
\<close>

theorem visible_alias_innermost:
  assumes "visibleTypeAlias name use (computeTypeAliasEnvironment p vk) = Some a"
  shows "a \<in> set (preorder vk p) \<and> kind a = ''TSTypeAliasDeclaration'' \<and>
    identifier_name (child a ''id'') = name \<and> encloses (enclosingTypeScope a) use \<and>
    name \<notin> lexicalTypeParameterNames use vk \<and>
    (\<forall>b \<in> set (declarations_of p vk name). encloses (bscope b) use \<longrightarrow>
       balias b = Some a \<or>
       encloses (bscope b) (enclosingTypeScope a) \<and> bscope b \<noteq> enclosingTypeScope a)"
proof -
  obtain b where b: "nearestTypeBindings name use (computeTypeAliasEnvironment p vk) = [b]"
    "balias b = Some a" "bscope b = enclosingTypeScope a"
    and a: "a \<in> set (preorder vk p)" "kind a = ''TSTypeAliasDeclaration''"
      "identifier_name (child a ''id'') = name" "name \<notin> lexicalTypeParameterNames use vk"
    using assms by (rule visible_alias_nearest)
  have near: "x = b \<longleftrightarrow> x \<in> set (declarations_of p vk name) \<and> encloses (bscope x) use \<and>
     (\<forall>y \<in> set (declarations_of p vk name).
        encloses (bscope y) use \<longrightarrow> encloses (bscope y) (bscope x))" for x
    using nearest_iff_innermost [of x name use p vk] b(1) by simp
  from near [of b] have scope: "encloses (enclosingTypeScope a) use"
    and outer: "\<forall>y \<in> set (declarations_of p vk name).
        encloses (bscope y) use \<longrightarrow> encloses (bscope y) (enclosingTypeScope a)"
    using b(3) by simp_all
  moreover have "x = b" if "x \<in> set (declarations_of p vk name)" "encloses (bscope x) use"
    "bscope x = enclosingTypeScope a" for x
    using near [of x] that outer by simp
  ultimately show ?thesis using a b(2) by blast
qed

theorem visible_alias_innermost_witness:
  "encloses (enclosingTypeScope shadow_inner) shadow_use \<and>
   list_all (\<lambda>b. encloses (bscope b) shadow_use \<longrightarrow>
      balias b = Some shadow_inner \<or>
      encloses (bscope b) (enclosingTypeScope shadow_inner) \<and>
      bscope b \<noteq> enclosingTypeScope shadow_inner)
     (declarations_of shadow_program example_keys ''A'')"
  using visible_alias_innermost [OF shadow_visible] unfolding list_all_iff by blast

text \<open>
  C28: the environment of a program lists, under every name, the declarations of that name in
  source order and no entry for a name that is not declared; its aliases are the alias
  declarations of the program in source order.
\<close>

theorem collected_bindings:
  "bindingsByName (computeTypeAliasEnvironment p vk) name =
     (if declarations_of p vk name = [] then None else Some (declarations_of p vk name)) \<and>
   aliases (computeTypeAliasEnvironment p vk) =
     filter (\<lambda>c. kind c = ''TSTypeAliasDeclaration'') (preorder vk p)"
proof -
  have "m name \<noteq> Some []" if "m = fst (fold record_binding cs (\<lambda>_. None, []))" for m cs
    using that
    by (induction cs arbitrary: m rule: rev_induct)
      (auto simp: record_binding_def push_binding_def split: option.splits)
  then show ?thesis
    using compute_entries [of p vk name] compute_aliases [of p vk]
    by (auto simp: entries_def declarations_of_def computeTypeAliasEnvironment_def
        collect_fold_preorder case_prod_beta split: option.splits)
qed

text \<open>
  C29: whatever programs are asked for with whatever visitor keys, in whatever order and however
  often, every answer of the cache is the environment computed from that program with the
  visitor keys of the first request for it. The cache is therefore transparent for a host with
  one table of visitor keys, and a request with other keys gets the old answer.
\<close>

theorem cached_environments:
  "fst (request_environments requests (\<lambda>_. None)) =
     map (\<lambda>r. computeTypeAliasEnvironment (fst r) (the (map_of requests (fst r)))) requests"
  by (simp add: request_answers)

end
