(* ===== verification/Type_Resolution.thy ===== *)
theory Type_Resolution
  imports Type_Bindings
begin

text \<open>
  \<^verbatim>\<open>shared/type-alias-resolution.ts\<close>, second half: \<^verbatim>\<open>resolvedTypeMatches\<close> evaluates a type
  under a matcher, replacing a reference to a bound type parameter by its argument and a
  reference to a visible alias by the alias body.

  An argument is a closure: the argument's type with the substitutions of the place where it
  was written. A \<^verbatim>\<open>Map\<close> that is copied on every extension is an association list. The first
  argument of \<open>evaluate\<close> is the depth of the call stack. The matcher is a callback; what the
  evaluation needs of it is the locale \<open>type_matcher\<close>, which the three rules that pass one
  interpret with their own.
\<close>

datatype substitution =
  Substitution (stype: cursor) (ssubs: "(string \<times> substitution) list")

type_synonym substitutions = "(string \<times> substitution) list"

type_synonym resolved_type_matcher = "cursor \<Rightarrow> (cursor \<Rightarrow> bool option) \<Rightarrow> bool option"

definition typeReferenceName :: "cursor \<Rightarrow> string option" where
  "typeReferenceName t =
     (if kind (child t ''typeName'') = ''Identifier''
      then Some (identifier_name (child t ''typeName'')) else None)"

definition type_arguments :: "cursor \<Rightarrow> cursor list" where
  "type_arguments t = elems (child t ''typeArguments'') ''params''"

lemma type_arguments_smaller:
  "kind c = ''TSTypeReference'' \<Longrightarrow> d \<in> set (type_arguments c) \<Longrightarrow> size (focus d) < size (focus c)"
  using size_elems [of d "child c ''typeArguments''" "''params''"]
    size_child [of c "''typeArguments''"]
  by (force simp: type_arguments_def dest: kind_not_absent)

definition parameter_names :: "cursor \<Rightarrow> string list" where
  "parameter_names a = map type_parameter_name (type_parameters a)"

definition all_parameters :: "type_alias_environment \<Rightarrow> string list" where
  "all_parameters env = concat (map parameter_names (aliases env))"

fun bind_parameters ::
    "cursor list \<Rightarrow> nat \<Rightarrow> cursor list \<Rightarrow> substitutions \<Rightarrow> substitutions \<Rightarrow> substitutions option"
where
  "bind_parameters [] index args base next_subs = Some next_subs"
| "bind_parameters (parameter # rest) index args base next_subs =
     (let explicit = at_index args index;
          argument = (case explicit of Some a \<Rightarrow> Some a | None \<Rightarrow> opt_child parameter ''default'')
      in case argument of
           None \<Rightarrow> None
         | Some a \<Rightarrow>
             bind_parameters rest (index + 1) args base
               ((type_parameter_name parameter,
                 Substitution a (if explicit = None then next_subs else base)) # next_subs))"

definition aliasSubstitutions :: "cursor \<Rightarrow> cursor \<Rightarrow> substitutions \<Rightarrow> substitutions option" where
  "aliasSubstitutions alias reference base =
     bind_parameters (type_parameters alias) 0 (type_arguments reference) base base"

text \<open>
  What the evaluation does with a node before it asks the matcher: a bound parameter without
  arguments continues in its closure, a visible alias that is not being resolved continues in
  its body, anything else goes to the matcher.
\<close>

definition alias_redirect ::
    "type_alias_environment \<Rightarrow> cursor \<Rightarrow> string \<Rightarrow> substitutions \<Rightarrow> cursor list \<Rightarrow>
     (cursor \<times> substitutions \<times> cursor list) option" where
  "alias_redirect env current name subs resolving =
     (case visibleTypeAlias name current env of
        None \<Rightarrow> None
      | Some alias \<Rightarrow>
          if alias \<in> set resolving then None
          else case aliasSubstitutions alias current subs of
                 None \<Rightarrow> None
               | Some next_subs \<Rightarrow>
                   Some (child alias ''typeAnnotation'', next_subs, alias # resolving))"

definition redirect ::
    "type_alias_environment \<Rightarrow> cursor \<Rightarrow> substitutions \<Rightarrow> cursor list \<Rightarrow>
     (cursor \<times> substitutions \<times> cursor list) option" where
  "redirect env current subs resolving =
     (if kind current = ''TSTypeReference'' then
        case typeReferenceName current of
          None \<Rightarrow> None
        | Some name \<Rightarrow>
            (case map_of subs name of
               Some s \<Rightarrow>
                 if type_arguments current = [] then Some (stype s, ssubs s, resolving)
                 else alias_redirect env current name subs resolving
             | None \<Rightarrow> alias_redirect env current name subs resolving)
      else None)"

primrec evaluate ::
    "nat \<Rightarrow> resolved_type_matcher \<Rightarrow> type_alias_environment \<Rightarrow>
     cursor \<Rightarrow> substitutions \<Rightarrow> cursor list \<Rightarrow> bool option" where
  "evaluate 0 matcher env current subs resolving = None"
| "evaluate (Suc depth) matcher env current subs resolving =
     (case redirect env current subs resolving of
        Some (current', subs', resolving') \<Rightarrow> evaluate depth matcher env current' subs' resolving'
      | None \<Rightarrow> matcher current (\<lambda>c. evaluate depth matcher env c subs resolving))"

definition resolvedTypeMatches ::
    "nat \<Rightarrow> cursor \<Rightarrow> type_alias_environment \<Rightarrow> resolved_type_matcher \<Rightarrow> bool option" where
  "resolvedTypeMatches depth type env matcher = evaluate depth matcher env type [] []"

subsection \<open>What shrinks\<close>

definition subs_size :: "substitutions \<Rightarrow> nat" where
  "subs_size subs = size_list (size_prod (\<lambda>_. 0) size) subs"

lemma subs_size_closure: "map_of subs name = Some s \<Longrightarrow> subs_size (ssubs s) < subs_size subs"
proof -
  assume "map_of subs name = Some s"
  then have "(name, s) \<in> set subs" by (rule map_of_SomeD)
  then have "size s \<le> subs_size subs"
    unfolding subs_size_def by (induction subs) auto
  moreover have "subs_size (ssubs s) < size s"
    by (cases s) (simp add: subs_size_def)
  ultimately show ?thesis by simp
qed

definition remaining :: "type_alias_environment \<Rightarrow> cursor list \<Rightarrow> nat" where
  "remaining env resolving = card (set (aliases env) - set resolving)"

lemma remaining_less:
  "a \<in> set (aliases env) \<Longrightarrow> a \<notin> set resolving \<Longrightarrow>
   remaining env (a # resolving) < remaining env resolving"
  unfolding remaining_def by (rule psubset_card_mono) auto

definition evaluation_order ::
    "type_alias_environment \<Rightarrow> ((cursor \<times> substitutions \<times> cursor list) \<times>
       (cursor \<times> substitutions \<times> cursor list)) set" where
  "evaluation_order env =
     measures [\<lambda>(c, subs, res). remaining env res,
               \<lambda>(c, subs, res). subs_size subs,
               \<lambda>(c, subs, res). size (focus c)]"

lemma wf_evaluation_order: "wf (evaluation_order env)"
  by (simp add: evaluation_order_def)

lemma redirect_decreases:
  assumes "env_ok env" and "redirect env c subs res = Some next"
  shows "(next, (c, subs, res)) \<in> evaluation_order env"
proof -
  obtain name where name: "typeReferenceName c = Some name"
    using assms(2) by (auto simp: redirect_def split: if_splits option.splits)
  show ?thesis
  proof (cases "alias_redirect env c name subs res = Some next")
    case True
    then obtain al subs' where
      "visibleTypeAlias name c env = Some al" "al \<notin> set res"
      "next = (child al ''typeAnnotation'', subs', al # res)"
      by (auto simp: alias_redirect_def split: if_splits option.splits)
    with visible_alias_in_env(1) [OF assms(1)] remaining_less show ?thesis
      by (simp add: evaluation_order_def)
  next
    case False
    with assms(2) name obtain s where "map_of subs name = Some s" "next = (stype s, ssubs s, res)"
      by (auto simp: redirect_def split: if_splits option.splits)
    then show ?thesis
      by (simp add: evaluation_order_def subs_size_closure)
  qed
qed

subsection \<open>The contract of a matcher\<close>

locale type_matcher =
  fixes matcher :: resolved_type_matcher
    and asks :: "cursor \<Rightarrow> cursor list"
  assumes asks_smaller: "d \<in> set (asks c) \<Longrightarrow> size (focus d) < size (focus c)"
    and matcher_total: "(\<And>d. d \<in> set (asks c) \<Longrightarrow> f d \<noteq> None) \<Longrightarrow> matcher c f \<noteq> None"
    and matcher_mono:
      "(\<And>d b. f d = Some b \<Longrightarrow> g d = Some b) \<Longrightarrow> matcher c f = Some r \<Longrightarrow> matcher c g = Some r"
begin

lemma evaluate_stable: "stable (\<lambda>n. evaluate n matcher env c subs res)"
proof -
  have "evaluate n matcher env c subs res = Some b \<Longrightarrow>
      evaluate (Suc n) matcher env c subs res = Some b" for n c subs res b
  proof (induction n arbitrary: c subs res b)
    case (Suc n)
    show ?case
    proof (cases "redirect env c subs res")
      case None
      with Suc.prems have
        "matcher c (\<lambda>d. evaluate n matcher env d subs res) = Some b" by simp
      then have "matcher c (\<lambda>d. evaluate (Suc n) matcher env d subs res) = Some b"
        by (rule matcher_mono [rotated]) (rule Suc.IH)
      with None show ?thesis by simp
    next
      case (Some r)
      with Suc show ?thesis by (cases r) simp
    qed
  qed simp
  then show ?thesis by (simp add: stable_def)
qed

lemma evaluate_converges:
  assumes "env_ok env"
  shows "converges (\<lambda>n. evaluate n matcher env c subs res)"
proof -
  have "converges (\<lambda>n. evaluate n matcher env (fst x) (fst (snd x)) (snd (snd x)))" for x
  proof (induction x rule: wf_induct_rule [OF wf_evaluation_order [of env]])
    case (1 x)
    obtain c subs res where x: "x = (c, subs, res)" by (cases x)
    show ?case
    proof (cases "redirect env c subs res")
      case None
      have "converges (\<lambda>n. evaluate n matcher env d subs res)" if "d \<in> set (asks c)" for d
        using 1 [of "(d, subs, res)"] asks_smaller [OF that] x
        by (simp add: evaluation_order_def)
      then obtain n where "\<forall>m\<ge>n. \<forall>d\<in>set (asks c). evaluate m matcher env d subs res \<noteq> None"
        using converges_finite [of "set (asks c)" "\<lambda>d n. evaluate n matcher env d subs res"] by auto
      then have "evaluate (Suc n) matcher env c subs res \<noteq> None"
        using None matcher_total [of c] by simp
      then have "converges (\<lambda>n. evaluate n matcher env c subs res)"
        by (rule stable_convergesI [OF evaluate_stable])
      with x show ?thesis by simp
    next
      case (Some y)
      then have "converges (\<lambda>n. evaluate n matcher env (fst y) (fst (snd y)) (snd (snd y)))"
        using 1 redirect_decreases [OF assms] x by blast
      then obtain n where "evaluate n matcher env (fst y) (fst (snd y)) (snd (snd y)) \<noteq> None"
        unfolding converges_def by blast
      then have "evaluate (Suc n) matcher env c subs res \<noteq> None"
        using Some by (cases y) simp
      then have "converges (\<lambda>n. evaluate n matcher env c subs res)"
        by (rule stable_convergesI [OF evaluate_stable])
      with x show ?thesis by simp
    qed
  qed
  from this [of "(c, subs, res)"] show ?thesis by simp
qed

end

text \<open>
  The parts of a type through which the rules look: what is inside parentheses, the members of
  a union and the arguments of a reference. \<open>spots\<close> are all positions reached that way.
\<close>

definition type_parts :: "cursor \<Rightarrow> cursor list" where
  "type_parts c =
     (if kind c = ''TSParenthesizedType'' then [child c ''typeAnnotation'']
      else if kind c = ''TSUnionType'' then elems c ''types''
      else if kind c = ''TSTypeReference'' then type_arguments c else [])"

lemma type_parts_smaller: "d \<in> set (type_parts c) \<Longrightarrow> size (focus d) < size (focus c)"
  by (auto simp: type_parts_def size_child_node size_elems kind_not_absent type_arguments_smaller
      split: if_splits)

function spots :: "cursor \<Rightarrow> cursor list" where
  "spots c = c # concat (map spots (type_parts c))"
  by pat_completeness auto
termination
  by (relation "measure (\<lambda>c. size (focus c))") (auto simp: type_parts_smaller)

declare spots.simps [simp del]

lemma spots_self: "c \<in> set (spots c)"
  by (subst spots.simps) simp

lemma spots_part: "d \<in> set (type_parts c) \<Longrightarrow> set (spots d) \<subseteq> set (spots c)"
  by (subst (2) spots.simps) auto

text \<open>
  The matchers of the rules are disjunctions: some kinds of node match at once, the others
  ask about some of their parts. Only references to a few reserved names are looked into.
\<close>

locale disjunctive_matcher =
  fixes matcher :: resolved_type_matcher
    and hit :: "cursor \<Rightarrow> bool"
    and asks :: "cursor \<Rightarrow> cursor list"
    and reserved :: "string list"
  assumes hit_no_reference: "hit c \<Longrightarrow> kind c \<noteq> ''TSTypeReference''"
    and asks_parts: "d \<in> set (asks c) \<Longrightarrow> d \<in> set (type_parts c)"
    and asks_reserved: "d \<in> set (asks c) \<Longrightarrow> kind c = ''TSTypeReference'' \<Longrightarrow>
      typeReferenceName c = Some name \<Longrightarrow> name \<in> set reserved"
    and matcher_eq: "matcher c f = (if hit c then Some True else some_opt f (asks c))"

sublocale disjunctive_matcher \<subseteq> type_matcher matcher asks
proof (unfold_locales, goal_cases)
  case (2 c f)
  then show ?case using some_opt_total [of "asks c" f] by (auto simp: matcher_eq)
next
  case (3 f g c r)
  then show ?case using some_opt_mono [of "asks c" f g r] by (simp add: matcher_eq split: if_splits)
qed (rule type_parts_smaller [OF asks_parts])

end
