(* ===== verification/Type_Denotation.thy ===== *)
theory Type_Denotation
  imports Type_Resolution
begin

text \<open>
  What \<^verbatim>\<open>resolvedTypeMatches\<close> finds, said without its maps and sets.

  \<open>reaches\<close> is the meaning of a type under statically scoped aliases: a reference to a type
  parameter stands for its argument at the place where the argument was written, a reference to
  a visible alias for the alias body under the alias's own parameters only. It also records the
  aliases expanded on the way. The code differs in two ways: its substitutions keep the
  caller's parameters, and it expands no alias inside an expansion of itself, not even in an
  argument. On hygienic programs, where no alias mentions a parameter of another alias, the
  first does not matter, and the code finds exactly what is reached with distinct expansions.
\<close>

subsection \<open>Statically scoped references\<close>

datatype closure = Closure (ctype: cursor) (cenv: "string \<Rightarrow> closure option")

type_synonym type_scope = "string \<Rightarrow> closure option"

text \<open>
  The scope that the first \<open>i\<close> parameters form: parameter number \<open>i\<close> stands for the \<open>i\<close>th
  argument where the reference is written, or for its default in the scope of the parameters
  before it.
\<close>

primrec parameter_scope ::
    "cursor list \<Rightarrow> cursor list \<Rightarrow> type_scope \<Rightarrow> nat \<Rightarrow> type_scope" where
  "parameter_scope ps args \<rho> 0 = (\<lambda>_. None)"
| "parameter_scope ps args \<rho> (Suc i) =
     (parameter_scope ps args \<rho> i)(type_parameter_name (ps ! i) \<mapsto>
        (if i < length args then Closure (args ! i) \<rho>
         else Closure (child (ps ! i) ''default'') (parameter_scope ps args \<rho> i)))"

definition applicable :: "cursor \<Rightarrow> cursor \<Rightarrow> bool" where
  "applicable a c \<longleftrightarrow>
     list_all (\<lambda>p. \<not> null (child p ''default''))
       (drop (length (type_arguments c)) (type_parameters a))"

definition alias_scope :: "cursor \<Rightarrow> cursor \<Rightarrow> type_scope \<Rightarrow> type_scope" where
  "alias_scope a c \<rho> =
     parameter_scope (type_parameters a) (type_arguments c) \<rho> (length (type_parameters a))"

definition refers :: "cursor \<Rightarrow> string \<Rightarrow> bool" where
  "refers c name \<longleftrightarrow> kind c = ''TSTypeReference'' \<and> typeReferenceName c = Some name"

definition unresolved :: "type_alias_environment \<Rightarrow> cursor \<Rightarrow> type_scope \<Rightarrow> bool" where
  "unresolved env c \<rho> \<longleftrightarrow>
     (\<nexists>name. refers c name \<and>
        (\<rho> name \<noteq> None \<and> type_arguments c = [] \<or> visibleTypeAlias name c env \<noteq> None))"

inductive reaches ::
    "(cursor \<Rightarrow> bool) \<Rightarrow> (cursor \<Rightarrow> cursor list) \<Rightarrow> type_alias_environment \<Rightarrow>
     cursor \<Rightarrow> type_scope \<Rightarrow> cursor list \<Rightarrow> bool"
  for hit :: "cursor \<Rightarrow> bool" and parts :: "cursor \<Rightarrow> cursor list"
    and env :: type_alias_environment
where
  reaches_hit: "hit c \<Longrightarrow> reaches hit parts env c \<rho> []"
| reaches_part: "unresolved env c \<rho> \<Longrightarrow> d \<in> set (parts c) \<Longrightarrow>
    reaches hit parts env d \<rho> expanded \<Longrightarrow> reaches hit parts env c \<rho> expanded"
| reaches_parameter: "refers c name \<Longrightarrow> type_arguments c = [] \<Longrightarrow> \<rho> name = Some (Closure t \<rho>') \<Longrightarrow>
    reaches hit parts env t \<rho>' expanded \<Longrightarrow> reaches hit parts env c \<rho> expanded"
| reaches_alias: "refers c name \<Longrightarrow> \<rho> name = None \<or> type_arguments c \<noteq> [] \<Longrightarrow>
    visibleTypeAlias name c env = Some a \<Longrightarrow> applicable a c \<Longrightarrow>
    reaches hit parts env (child a ''typeAnnotation'') (alias_scope a c \<rho>) expanded \<Longrightarrow>
    reaches hit parts env c \<rho> (a # expanded)"

text \<open>The types the resolution finds: no alias is expanded twice on the way to the hit.\<close>

definition found ::
    "(cursor \<Rightarrow> bool) \<Rightarrow> (cursor \<Rightarrow> cursor list) \<Rightarrow> type_alias_environment \<Rightarrow> cursor \<Rightarrow> bool" where
  "found hit parts env t \<longleftrightarrow>
     (\<exists>expanded. reaches hit parts env t (\<lambda>_. None) expanded \<and> distinct expanded)"

subsection \<open>Hygienic programs\<close>

definition reference_names :: "cursor \<Rightarrow> string list" where
  "reference_names c =
     concat (map (\<lambda>d. if kind d = ''TSTypeReference''
       then (case typeReferenceName d of None \<Rightarrow> [] | Some name \<Rightarrow> [name]) else []) (spots c))"

text \<open>
  The alias names a parameter of some alias in its body only if the parameter is its own, and in
  the default of a parameter only if it is one of the parameters before.
\<close>

definition hygienic_alias :: "type_alias_environment \<Rightarrow> cursor \<Rightarrow> bool" where
  "hygienic_alias env a \<longleftrightarrow>
     list_all (\<lambda>name. name \<in> set (all_parameters env) \<longrightarrow> name \<in> set (parameter_names a))
       (reference_names (child a ''typeAnnotation'')) \<and>
     list_all (\<lambda>i. list_all
         (\<lambda>name. name \<in> set (all_parameters env) \<longrightarrow> name \<in> set (take i (parameter_names a)))
         (reference_names (child (type_parameters a ! i) ''default'')))
       [0..<length (type_parameters a)]"

definition hygienic :: "type_alias_environment \<Rightarrow> bool" where
  "hygienic env \<longleftrightarrow> list_all (hygienic_alias env) (aliases env)"

lemma reference_names_self: "refers c name \<Longrightarrow> name \<in> set (reference_names c)"
  using spots_self [of c] by (force simp: reference_names_def refers_def)

lemma reference_names_part: "d \<in> set (type_parts c) \<Longrightarrow> set (reference_names d) \<subseteq> set (reference_names c)"
  using spots_part [of d c] by (fastforce simp: reference_names_def)

lemma refers_argument: "refers c name \<Longrightarrow> d \<in> set (type_arguments c) \<Longrightarrow> d \<in> set (type_parts c)"
  by (simp add: refers_def type_parts_def)

subsection \<open>Substitutions and scopes agree\<close>

text \<open>
  A substitution map and a scope agree on a type when they bind the names the type refers to
  alike, to arguments on which again the map and the scope of the argument agree.
\<close>

inductive agree :: "type_alias_environment \<Rightarrow> cursor \<Rightarrow> substitutions \<Rightarrow> type_scope \<Rightarrow> bool"
  for env :: type_alias_environment
where
  agreeI: "fst ` set subs \<subseteq> set (all_parameters env) \<Longrightarrow>
    (\<And>name. name \<in> set (reference_names c) \<Longrightarrow>
       rel_option (\<lambda>s cl. stype s = ctype cl \<and> agree env (stype s) (ssubs s) (cenv cl))
         (map_of subs name) (\<rho> name)) \<Longrightarrow> agree env c subs \<rho>"
  monos option.rel_mono_strong

inductive_simps agree_iff: "agree env c subs \<rho>"

definition same_binding :: "type_alias_environment \<Rightarrow> substitution option \<Rightarrow> closure option \<Rightarrow> bool" where
  "same_binding env =
     rel_option (\<lambda>s cl. stype s = ctype cl \<and> agree env (stype s) (ssubs s) (cenv cl))"

lemma agree_iff_bindings:
  "agree env c subs \<rho> \<longleftrightarrow> fst ` set subs \<subseteq> set (all_parameters env) \<and>
     (\<forall>name \<in> set (reference_names c). same_binding env (map_of subs name) (\<rho> name))"
  unfolding same_binding_def by (rule trans [OF agree_iff]) auto

lemma same_binding_simps [simp]:
  "same_binding env None None" "\<not> same_binding env None (Some cl)" "\<not> same_binding env (Some s) None"
  "same_binding env (Some s) (Some cl) \<longleftrightarrow>
     stype s = ctype cl \<and> agree env (stype s) (ssubs s) (cenv cl)"
  by (simp_all add: same_binding_def)

lemma agree_empty: "agree env c [] (\<lambda>_. None)"
  by (simp add: agree_iff_bindings)

lemma agree_part: "agree env c subs \<rho> \<Longrightarrow> d \<in> set (type_parts c) \<Longrightarrow> agree env d subs \<rho>"
  using reference_names_part [of d c] by (auto simp: agree_iff_bindings)

lemma agree_reference:
  "agree env c subs \<rho> \<Longrightarrow> refers c name \<Longrightarrow> same_binding env (map_of subs name) (\<rho> name)"
  using reference_names_self by (auto simp: agree_iff_bindings)

lemma not_parameter_unbound:
  "fst ` set subs \<subseteq> set (all_parameters env) \<Longrightarrow> name \<notin> set (all_parameters env) \<Longrightarrow>
   map_of subs name = None"
  by (force simp: map_of_eq_None_iff)

lemma parameter_scope_unbound:
  "i \<le> length ps \<Longrightarrow> name \<notin> set (map type_parameter_name (take i ps)) \<Longrightarrow>
   parameter_scope ps args \<rho> i name = None"
  by (induction i) (auto simp: take_Suc_conv_app_nth)

text \<open>The state of the loop of \<open>aliasSubstitutions\<close> after \<open>i\<close> parameters.\<close>

definition bound_up_to ::
    "type_alias_environment \<Rightarrow> cursor list \<Rightarrow> cursor list \<Rightarrow> type_scope \<Rightarrow> nat \<Rightarrow> substitutions \<Rightarrow> bool" where
  "bound_up_to env ps args \<rho> i subs \<longleftrightarrow>
     fst ` set subs \<subseteq> set (all_parameters env) \<and>
     (\<forall>name \<in> set (map type_parameter_name (take i ps)).
        same_binding env (map_of subs name) (parameter_scope ps args \<rho> i name))"

lemma bound_up_to_agree:
  assumes "bound_up_to env ps args \<rho> i subs" and "i \<le> length ps"
    and "\<forall>name \<in> set (reference_names t). name \<in> set (all_parameters env) \<longrightarrow>
      name \<in> set (map type_parameter_name (take i ps))"
  shows "agree env t subs (parameter_scope ps args \<rho> i)"
proof -
  have "same_binding env (map_of subs name) (parameter_scope ps args \<rho> i name)"
    if "name \<in> set (reference_names t)" for name
  proof (cases "name \<in> set (map type_parameter_name (take i ps))")
    case False
    then have "name \<notin> set (all_parameters env)" using that assms(3) by blast
    then have "map_of subs name = None"
      using assms(1) by (auto simp: bound_up_to_def intro: not_parameter_unbound)
    with parameter_scope_unbound [OF assms(2) False] show ?thesis by simp
  qed (use assms(1) in \<open>auto simp: bound_up_to_def\<close>)
  with assms(1) show ?thesis by (simp add: agree_iff_bindings bound_up_to_def)
qed

lemma bound_up_to_Suc:
  assumes "bound_up_to env ps args \<rho> i subs" and "i < length ps"
    and "type_parameter_name (ps ! i) \<in> set (all_parameters env)"
    and "same_binding env (Some s) (parameter_scope ps args \<rho> (Suc i) (type_parameter_name (ps ! i)))"
  shows "bound_up_to env ps args \<rho> (Suc i) ((type_parameter_name (ps ! i), s) # subs)"
  using assms by (auto simp: bound_up_to_def take_Suc_conv_app_nth)


lemma bind_parameters_scope:
  assumes "hygienic env" and "a \<in> set (aliases env)" and "type_parameters a = ps"
    and "\<forall>d \<in> set args. agree env d base \<rho>"
    and "ps = taken @ rest" and "i = length taken" and "bound_up_to env ps args \<rho> i subs"
  shows "case bind_parameters rest i args base subs of
      None \<Rightarrow> \<not> list_all (\<lambda>p. \<not> null (child p ''default'')) (drop (length args - i) rest)
    | Some subs' \<Rightarrow> list_all (\<lambda>p. \<not> null (child p ''default'')) (drop (length args - i) rest) \<and>
        bound_up_to env ps args \<rho> (length ps) subs'"
  using assms(5-)
proof (induction rest arbitrary: taken i subs)
  case Nil
  then show ?case by simp
next
  case (Cons p rest)
  have p: "ps ! i = p" and i: "i < length ps" using Cons.prems by simp_all
  have own: "type_parameter_name p \<in> set (all_parameters env)"
    using assms(2,3) Cons.prems(1) by (force simp: all_parameters_def parameter_names_def)
  have clean: "hygienic_alias env a" using assms(1,2) by (simp add: hygienic_def list_all_iff)
  let ?next = "\<lambda>s. (type_parameter_name p, s) # subs"
  have step: "case bind_parameters rest (Suc i) args base (?next s) of
      None \<Rightarrow> \<not> list_all (\<lambda>p. \<not> null (child p ''default'')) (drop (length args - Suc i) rest)
    | Some subs' \<Rightarrow> list_all (\<lambda>p. \<not> null (child p ''default'')) (drop (length args - Suc i) rest) \<and>
        bound_up_to env ps args \<rho> (length ps) subs'"
    if "same_binding env (Some s) (parameter_scope ps args \<rho> (Suc i) (type_parameter_name p))" for s
    using that bound_up_to_Suc [OF Cons.prems(3) i] p own Cons.prems(1,2)
    by (intro Cons.IH [of "taken @ [p]"]) simp_all
  show ?case
  proof (cases "i < length args")
    case True
    then have "at_index args i = Some (args ! i)" and
      "drop (length args - i) (p # rest) = drop (length args - Suc i) rest"
      by (simp add: at_index_def, metis Suc_diff_Suc drop_Suc_Cons)
    with step [of "Substitution (args ! i) base"] True assms(4) p show ?thesis
      by (simp split: option.splits)
  next
    case False
    then have none: "at_index args i = None" by (simp add: at_index_def)
    have "agree env (child p ''default'') subs (parameter_scope ps args \<rho> i)"
      using clean i p assms(3) Cons.prems(3)
      by (intro bound_up_to_agree)
        (auto simp: hygienic_alias_def list_all_iff parameter_names_def take_map)
    with step [of "Substitution (child p ''default'') subs"] none False p show ?thesis
      by (auto simp: opt_child_def split: option.splits)
  qed
qed

lemma alias_substitutions_scope:
  assumes "hygienic env" and "a \<in> set (aliases env)" and "refers c name" and "agree env c base \<rho>"
  shows "case aliasSubstitutions a c base of
      None \<Rightarrow> \<not> applicable a c
    | Some subs \<Rightarrow> applicable a c \<and> agree env (child a ''typeAnnotation'') subs (alias_scope a c \<rho>)"
proof -
  let ?ps = "type_parameters a"
  have "\<forall>d \<in> set (type_arguments c). agree env d base \<rho>"
    using assms(3,4) refers_argument agree_part by blast
  then have bind: "case bind_parameters ?ps 0 (type_arguments c) base base of
      None \<Rightarrow> \<not> applicable a c
    | Some subs' \<Rightarrow> applicable a c \<and>
        bound_up_to env ?ps (type_arguments c) \<rho> (length ?ps) subs'"
    using bind_parameters_scope [OF assms(1,2) refl, of "type_arguments c" base \<rho> "[]" ?ps 0 base] assms(4)
    by (simp add: applicable_def bound_up_to_def agree_iff_bindings split: option.splits)
  have "hygienic_alias env a" using assms(1,2) by (simp add: hygienic_def list_all_iff)
  then have "bound_up_to env ?ps (type_arguments c) \<rho> (length ?ps) subs \<Longrightarrow>
      agree env (child a ''typeAnnotation'') subs (alias_scope a c \<rho>)" for subs
    unfolding alias_scope_def
    by (intro bound_up_to_agree) (auto simp: hygienic_alias_def list_all_iff parameter_names_def)
  with bind show ?thesis by (simp add: aliasSubstitutions_def split: option.splits)
qed

lemma redirect_cases:
  assumes "redirect env c subs res = Some (c', subs', res')"
  obtains name s where "refers c name" "type_arguments c = []" "map_of subs name = Some s"
      "c' = stype s" "subs' = ssubs s" "res' = res"
    | name a where "refers c name" "map_of subs name = None \<or> type_arguments c \<noteq> []"
      "visibleTypeAlias name c env = Some a" "a \<notin> set res"
      "aliasSubstitutions a c subs = Some subs'" "c' = child a ''typeAnnotation''" "res' = a # res"
proof -
  obtain name where name: "refers c name"
    using assms by (auto simp: redirect_def refers_def split: if_splits option.splits)
  show thesis
  proof (cases "\<exists>s. map_of subs name = Some s \<and> type_arguments c = []")
    case True
    with assms name show thesis by (auto simp: redirect_def refers_def intro: that(1))
  next
    case False
    with assms name have "alias_redirect env c name subs res = Some (c', subs', res')"
      by (auto simp: redirect_def refers_def split: option.splits if_splits)
    then obtain a where "visibleTypeAlias name c env = Some a" "a \<notin> set res"
      "aliasSubstitutions a c subs = Some subs'" "c' = child a ''typeAnnotation''" "res' = a # res"
      by (auto simp: alias_redirect_def split: option.splits if_splits)
    with False name show thesis by (intro that(2) [of name a]) auto
  qed
qed

lemma redirect_parameter:
  "refers c name \<Longrightarrow> type_arguments c = [] \<Longrightarrow> map_of subs name = Some s \<Longrightarrow>
   redirect env c subs res = Some (stype s, ssubs s, res)"
  by (simp add: redirect_def refers_def)

lemma redirect_alias:
  "refers c name \<Longrightarrow> map_of subs name = None \<or> type_arguments c \<noteq> [] \<Longrightarrow>
   visibleTypeAlias name c env = Some a \<Longrightarrow> a \<notin> set res \<Longrightarrow> aliasSubstitutions a c subs = Some subs' \<Longrightarrow>
   redirect env c subs res = Some (child a ''typeAnnotation'', subs', a # res)"
  by (auto simp: redirect_def alias_redirect_def refers_def split: option.split)

lemma same_binding_None: "same_binding env x y \<Longrightarrow> x = None \<longleftrightarrow> y = None"
  by (cases x; cases y) auto

lemma redirect_unresolved:
  assumes "agree env c subs \<rho>" and "unresolved env c \<rho>"
  shows "redirect env c subs res = None"
proof (rule ccontr)
  assume "redirect env c subs res \<noteq> None"
  then obtain c' subs' res' where "redirect env c subs res = Some (c', subs', res')" by auto
  then show False
    using assms same_binding_None [OF agree_reference [OF assms(1)]]
    by (cases rule: redirect_cases) (auto simp: unresolved_def)
qed

context disjunctive_matcher
begin

lemma part_unresolved:
  assumes "redirect env c subs res = None" and "d \<in> set (asks c)" and "agree env c subs \<rho>"
    and "env_ok env" and "\<forall>a \<in> set (aliases env). identifier_name (child a ''id'') \<notin> set reserved"
  shows "unresolved env c \<rho>"
proof -
  have False if name: "refers c name"
    and bound: "\<rho> name \<noteq> None \<and> type_arguments c = [] \<or> visibleTypeAlias name c env \<noteq> None" for name
  proof -
    have "name \<in> set reserved" using asks_reserved [OF assms(2)] name by (simp add: refers_def)
    then have "visibleTypeAlias name c env = None"
      using visible_alias_in_env [OF assms(4)] assms(5) by (metis not_Some_eq)
    with bound obtain s where "map_of subs name = Some s" "type_arguments c = []"
      using same_binding_None [OF agree_reference [OF assms(3) name]] by auto
    with redirect_parameter [OF name] assms(1) show False by simp
  qed
  then show ?thesis unfolding unresolved_def by blast
qed

lemma evaluate_sound:
  assumes "hygienic env" and "env_ok env"
    and "\<forall>a \<in> set (aliases env). identifier_name (child a ''id'') \<notin> set reserved"
    and "evaluate n matcher env c subs res = Some True" and "agree env c subs \<rho>"
  shows "\<exists>expanded. reaches hit asks env c \<rho> expanded \<and> distinct expanded \<and>
    set expanded \<inter> set res = {}"
  using assms(4,5)
proof (induction n arbitrary: c subs res \<rho>)
  case (Suc n)
  show ?case
  proof (cases "redirect env c subs res")
    case None
    show ?thesis
    proof (cases "hit c")
      case True
      then show ?thesis by (intro exI [of _ "[]"]) (simp add: reaches_hit)
    next
      case False
      with None Suc.prems(1) obtain d where d: "d \<in> set (asks c)"
        "evaluate n matcher env d subs res = Some True"
        by (auto simp: matcher_eq [of c] dest: some_opt_TrueD)
      with Suc.IH [OF d(2) agree_part [OF Suc.prems(2) asks_parts [OF d(1)]]]
        part_unresolved [OF None d(1) Suc.prems(2) assms(2,3)]
      show ?thesis by (blast intro: reaches_part)
    qed
  next
    case (Some r)
    obtain c' subs' res' where r: "r = (c', subs', res')" by (cases r)
    have eval: "evaluate n matcher env c' subs' res' = Some True" using Suc.prems(1) Some r by simp
    from Some r have "redirect env c subs res = Some (c', subs', res')" by simp
    then show ?thesis
    proof (cases rule: redirect_cases)
      case (1 name s)
      with agree_reference [OF Suc.prems(2) 1(1)] obtain cl where
        cl: "\<rho> name = Some cl" "stype s = ctype cl" "agree env (stype s) (ssubs s) (cenv cl)"
        by (cases "\<rho> name") auto
      with Suc.IH [of c' subs' res' "cenv cl"] eval 1 obtain expanded where
        "reaches hit asks env (ctype cl) (cenv cl) expanded" "distinct expanded"
        "set expanded \<inter> set res = {}" by auto
      with reaches_parameter [OF 1(1,2), of \<rho> "ctype cl" "cenv cl" hit asks env] cl(1) show ?thesis
        by (intro exI [of _ expanded]) simp
    next
      case (2 name a)
      then have a: "a \<in> set (aliases env)" using visible_alias_in_env(1) [OF assms(2)] by blast
      with alias_substitutions_scope [OF assms(1) a 2(1) Suc.prems(2)] 2 have
        scope: "applicable a c" "agree env c' subs' (alias_scope a c \<rho>)" by simp_all
      from Suc.IH [OF eval scope(2)] obtain expanded where
        e: "reaches hit asks env c' (alias_scope a c \<rho>) expanded" "distinct expanded"
          "set expanded \<inter> set res' = {}" by blast
      have "\<rho> name = None \<or> type_arguments c \<noteq> []"
        using 2(2) same_binding_None [OF agree_reference [OF Suc.prems(2) 2(1)]] by blast
      then have "reaches hit asks env c \<rho> (a # expanded)"
        using e(1) 2 scope(1) by (auto intro: reaches_alias)
      with e 2 show ?thesis by (intro exI [of _ "a # expanded"]) auto
    qed
  qed
qed simp

lemma evaluate_complete:
  assumes "hygienic env" and "env_ok env"
    and "reaches hit asks env c \<rho> expanded" and "distinct expanded"
    and "set expanded \<inter> set res = {}" and "agree env c subs \<rho>"
  shows "evaluate n matcher env c subs res \<noteq> Some False"
  using assms(3-)
proof (induction arbitrary: n subs res rule: reaches.induct)
  case (reaches_hit c \<rho>)
  then have "redirect env c subs res = None"
    using hit_no_reference [of c] by (simp add: redirect_def)
  with reaches_hit show ?case by (cases n) (simp_all add: matcher_eq [of c])
next
  case (reaches_part c \<rho> d expanded)
  then have "redirect env c subs res = None" by (blast intro: redirect_unresolved)
  moreover have "evaluate m matcher env d subs res \<noteq> Some False" for m
    using reaches_part agree_part asks_parts by blast
  ultimately show ?case
    using reaches_part.hyps(2) by (cases n) (auto simp: matcher_eq [of c] dest: some_opt_FalseD)
next
  case (reaches_parameter c name \<rho> t \<rho>' expanded)
  then obtain s where s: "map_of subs name = Some s" "stype s = t" "agree env t (ssubs s) \<rho>'"
    using agree_reference [OF reaches_parameter.prems(3) reaches_parameter.hyps(1)]
    by (cases "map_of subs name") auto
  with reaches_parameter show ?case
    using redirect_parameter [of c name subs s] by (cases n) auto
next
  case (reaches_alias c name \<rho> a expanded)
  have a: "a \<in> set (aliases env)"
    using visible_alias_in_env(1) [OF assms(2)] reaches_alias.hyps(3) by blast
  with alias_substitutions_scope [OF assms(1) a reaches_alias.hyps(1) reaches_alias.prems(3)]
  obtain subs' where subs': "aliasSubstitutions a c subs = Some subs'"
    "agree env (child a ''typeAnnotation'') subs' (alias_scope a c \<rho>)"
    using reaches_alias.hyps(4) by (cases "aliasSubstitutions a c subs") auto
  have "map_of subs name = None \<or> type_arguments c \<noteq> []"
    using reaches_alias same_binding_None agree_reference by blast
  with reaches_alias subs'(1) have "redirect env c subs res = Some (child a ''typeAnnotation'', subs', a # res)"
    by (intro redirect_alias) auto
  with reaches_alias subs'(2) show ?case by (cases n) auto
qed

lemma matches_found:
  assumes "hygienic env" and "env_ok env"
    and "\<forall>a \<in> set (aliases env). identifier_name (child a ''id'') \<notin> set reserved"
  shows "\<exists>n. \<forall>m\<ge>n. resolvedTypeMatches m t env matcher = Some (found hit asks env t)"
proof -
  obtain n where n: "\<forall>m\<ge>n. evaluate m matcher env t [] [] \<noteq> None"
    using evaluate_converges [OF assms(2)] unfolding converges_def by blast
  have "evaluate m matcher env t [] [] = Some (found hit asks env t)" if "m \<ge> n" for m
  proof (cases "evaluate m matcher env t [] []")
    case None
    with n that show ?thesis by blast
  next
    case (Some b)
    then show ?thesis
      using evaluate_sound [OF assms, of m t "[]" "[]"] agree_empty [of env t]
        evaluate_complete [OF assms(1,2), of t "\<lambda>_. None" _ "[]" "[]" m]
      by (cases b) (auto simp: found_def)
  qed
  then show ?thesis unfolding resolvedTypeMatches_def by blast
qed

end

subsection \<open>Programs without generic aliases\<close>

text \<open>Without type parameters a second expansion of an alias only repeats the first.\<close>

definition nongeneric :: "type_alias_environment \<Rightarrow> bool" where
  "nongeneric env \<longleftrightarrow> list_all (\<lambda>a. type_parameters a = []) (aliases env)"

lemma nongeneric_hygienic: "nongeneric env \<Longrightarrow> hygienic env"
  by (auto simp: nongeneric_def hygienic_def hygienic_alias_def all_parameters_def
      parameter_names_def list_all_iff)

lemma reaches_reroute:
  assumes "reaches hit parts env c \<rho> expanded" and "nongeneric env" and "env_ok env"
    and "\<rho> = (\<lambda>_. None)" and "expanded = xs @ a # ys"
  shows "reaches hit parts env (child a ''typeAnnotation'') (\<lambda>_. None) ys \<and>
    (\<forall>zs. reaches hit parts env (child a ''typeAnnotation'') (\<lambda>_. None) zs \<longrightarrow>
       reaches hit parts env c \<rho> (xs @ a # zs))"
  using assms
proof (induction arbitrary: xs rule: reaches.induct)
  case (reaches_alias c name \<rho> b expanded)
  have "type_parameters b = []"
    using reaches_alias.prems(1) visible_alias_in_env(1) [OF assms(3) reaches_alias.hyps(3)]
    by (simp add: nongeneric_def list_all_iff)
  then have scope: "alias_scope b c \<rho> = (\<lambda>_. None)" by (simp add: alias_scope_def)
  show ?case
  proof (cases xs)
    case Nil
    with reaches_alias scope show ?thesis by (auto intro: reaches.reaches_alias)
  next
    case (Cons x xs')
    with reaches_alias scope have
      "reaches hit parts env (child a ''typeAnnotation'') (\<lambda>_. None) ys \<and>
       (\<forall>zs. reaches hit parts env (child a ''typeAnnotation'') (\<lambda>_. None) zs \<longrightarrow>
          reaches hit parts env (child b ''typeAnnotation'') (alias_scope b c \<rho>) (xs' @ a # zs))"
      by auto
    with reaches_alias Cons show ?thesis by (auto intro: reaches.reaches_alias)
  qed
qed (auto intro: reaches.intros)

lemma reaches_distinct:
  assumes "nongeneric env" and "env_ok env" and "reaches hit parts env c (\<lambda>_. None) expanded"
  shows "found hit parts env c"
  using assms(3)
proof (induction "length expanded" arbitrary: expanded rule: less_induct)
  case less
  show ?case
  proof (cases "distinct expanded")
    case True
    with less.prems show ?thesis by (auto simp: found_def)
  next
    case False
    then obtain xs ys zs a where split: "expanded = xs @ [a] @ ys @ [a] @ zs"
      using not_distinct_decomp by blast
    have "reaches hit parts env (child a ''typeAnnotation'') (\<lambda>_. None) zs"
      using reaches_reroute [OF less.prems assms(1,2) refl, of "xs @ [a] @ ys" a zs] split by simp
    then have "reaches hit parts env c (\<lambda>_. None) (xs @ a # zs)"
      using reaches_reroute [OF less.prems assms(1,2) refl, of xs a "ys @ [a] @ zs"] split by simp
    with split show ?thesis by (intro less.hyps [of "xs @ a # zs"]) simp_all
  qed
qed

lemma nongeneric_found:
  "nongeneric env \<Longrightarrow> env_ok env \<Longrightarrow>
   found hit parts env c \<longleftrightarrow> (\<exists>expanded. reaches hit parts env c (\<lambda>_. None) expanded)"
  using reaches_distinct by (auto simp: found_def)

end
