(* ===== verification/Js_Strings.thy ===== *)
theory Js_Strings
  imports Prelude
begin

text \<open>
  The string functions of the language that the rules call, on strings of the characters
  0 to 255: trimming, lower case, searching, and the character classes of the regular
  expressions the rules build.
\<close>

text \<open>White space, as in \<^verbatim>\<open>trim\<close> and in the class \<^verbatim>\<open>\s\<close>.\<close>

definition js_space :: "char \<Rightarrow> bool" where
  "js_space ch \<longleftrightarrow> (let n = (of_char ch :: nat) in (9 \<le> n \<and> n \<le> 13) \<or> n = 32 \<or> n = 160)"

definition trimStart :: "string \<Rightarrow> string" where
  "trimStart s = dropWhile js_space s"

definition trimEnd :: "string \<Rightarrow> string" where
  "trimEnd s = rev (dropWhile js_space (rev s))"

definition trim :: "string \<Rightarrow> string" where
  "trim s = trimEnd (trimStart s)"

text \<open>The class \<^verbatim>\<open>[\p{L}\p{N}_]\<close>.\<close>

definition word_char :: "char \<Rightarrow> bool" where
  "word_char ch \<longleftrightarrow>
     (let n = (of_char ch :: nat) in
      (65 \<le> n \<and> n \<le> 90) \<or> (97 \<le> n \<and> n \<le> 122) \<or> (48 \<le> n \<and> n \<le> 57) \<or> n = 95 \<or>
      n \<in> {170, 178, 179, 181, 185, 186, 188, 189, 190} \<or>
      (192 \<le> n \<and> n \<noteq> 215 \<and> n \<noteq> 247))"

text \<open>
  The grammar of regular expressions: the characters that stand for themselves only after a
  backslash (0x5C). \<open>read_alternatives\<close> reads a pattern that consists of alternatives of literal
  characters and gives their texts; it gives \<open>None\<close> for every other pattern.
\<close>

definition SyntaxCharacter :: "char list" where
  "SyntaxCharacter = ''^$.*+?()[]{}|'' @ [CHR 0x5C]"

fun read_alternatives :: "string \<Rightarrow> string list option" where
  "read_alternatives [] = Some [[]]"
| "read_alternatives (ch # s) =
     (if ch = CHR ''|'' then map_option ((#) []) (read_alternatives s)
      else if ch = CHR 0x5C
      then (case s of
              [] \<Rightarrow> None
            | d # t \<Rightarrow>
                if d \<in> set SyntaxCharacter \<or> d = CHR ''/''
                then map_option (\<lambda>ts. (d # hd ts) # tl ts) (read_alternatives t) else None)
      else if ch \<in> set SyntaxCharacter then None
      else map_option (\<lambda>ts. (ch # hd ts) # tl ts) (read_alternatives s))"

definition upper_char :: "char \<Rightarrow> bool" where
  "upper_char ch \<longleftrightarrow> (let n = (of_char ch :: nat) in 65 \<le> n \<and> n \<le> 90)"

definition lower_char :: "char \<Rightarrow> char" where
  "lower_char ch =
     (let n = (of_char ch :: nat) in
      if (65 \<le> n \<and> n \<le> 90) \<or> (192 \<le> n \<and> n \<le> 222 \<and> n \<noteq> 215) then char_of (n + 32) else ch)"

definition toLowerCase :: "string \<Rightarrow> string" where
  "toLowerCase s = map lower_char s"

definition startsWith :: "string \<Rightarrow> string \<Rightarrow> bool" where
  "startsWith s t \<longleftrightarrow> take (length t) s = t"

definition endsWith :: "string \<Rightarrow> string \<Rightarrow> bool" where
  "endsWith s t \<longleftrightarrow> startsWith (rev s) (rev t)"

fun includes_str :: "string \<Rightarrow> string \<Rightarrow> bool" where
  "includes_str [] t \<longleftrightarrow> t = []"
| "includes_str (ch # s) t \<longleftrightarrow> startsWith (ch # s) t \<or> includes_str s t"

lemma startsWith_iff: "startsWith s t \<longleftrightarrow> (\<exists>u. s = t @ u)"
  unfolding startsWith_def by (metis append_eq_conv_conj append_take_drop_id)

lemma endsWith_iff: "endsWith s t \<longleftrightarrow> (\<exists>u. s = u @ t)"
  unfolding endsWith_def startsWith_iff by (metis rev_append rev_rev_ident)

lemma includes_iff: "includes_str s t \<longleftrightarrow> (\<exists>u v. s = u @ t @ v)"
proof (induction s)
  case (Cons ch s)
  have "(\<exists>u v. ch # s = u @ t @ v) \<longleftrightarrow> (\<exists>v. ch # s = t @ v) \<or> (\<exists>u v. s = u @ t @ v)"
    by (metis append_Cons append_Nil list.inject neq_Nil_conv)
  with Cons show ?case by (simp add: startsWith_iff)
qed simp

lemma dropWhile_split: "\<exists>ws. s = ws @ dropWhile P s \<and> list_all P ws"
  by (intro exI [of _ "takeWhile P s"]) (auto simp: list_all_iff dest: set_takeWhileD)

lemma dropWhile_prefix: "list_all P ws \<Longrightarrow> \<not> P ch \<Longrightarrow> dropWhile P (ws @ ch # s) = ch # s"
  by (induction ws) auto

lemma dropWhile_Cons_iff:
  "dropWhile P s = ch # t \<longleftrightarrow> (\<exists>ws. s = ws @ ch # t \<and> list_all P ws \<and> \<not> P ch)"
proof
  assume d: "dropWhile P s = ch # t"
  then have "\<not> P ch" using hd_dropWhile [of P s] by simp
  with d dropWhile_split [of s P] show "\<exists>ws. s = ws @ ch # t \<and> list_all P ws \<and> \<not> P ch" by auto
qed (auto simp: dropWhile_prefix)

end
