(* ===== verification/Lint_Context.thy ===== *)
theory Lint_Context
  imports Lexical_Types Js_Strings
begin

text \<open>
  What a rule is given by the linter, and what it gives back.

  The services of \<^verbatim>\<open>context.sourceCode\<close> (scopes, variables, comments, text, visitor keys) belong
  to the linter and not to the plugin: they are the fields of the record \<open>source_code\<close>, an
  argument of every definition that uses them. A scope is a map of names with an optional
  enclosing scope; a variable carries an identity \<open>var_id\<close>, so that two variable objects are
  the same when their identities are.

  A rule is a listener: it is called with the nodes of a program, keeps a state, and appends
  reports. A call may exhaust the stack (\<open>None\<close>), which aborts the run.
  \<^verbatim>\<open>shared/scope.ts\<close> is the definition \<open>resolveVariable\<close>.
\<close>

subsection \<open>Scopes and variables\<close>

record reference =
  ref_isWrite :: bool
  ref_init :: bool

record var_definition =
  def_type :: string
  def_node :: cursor
  def_parent :: "cursor option"

record variable =
  var_id :: nat
  var_name :: string
  var_identifiers :: "cursor list"
  var_defs :: "var_definition list"
  var_references :: "reference list"

record scope_reference =
  sref_identifier :: cursor
  sref_resolved :: "variable option"

datatype scope = Scope (scope_set: "string \<Rightarrow> variable option") (upper: "scope option")

record comment =
  comment_value :: string
  comment_start :: nat
  comment_end :: nat
  comment_start_line :: nat

record source_code =
  getScope :: "cursor \<Rightarrow> scope"
  isGlobalReference :: "cursor \<Rightarrow> bool"
  getDeclaredVariables :: "cursor \<Rightarrow> variable list"
  getText :: "cursor \<Rightarrow> string"
  getCommentsBefore :: "cursor \<Rightarrow> comment list"
  scopeReferences :: "scope_reference list list"
  sc_visitorKeys :: visitor_keys
  sourceText :: string

fun lookup_scope :: "string \<Rightarrow> scope \<Rightarrow> variable option" where
  "lookup_scope name (Scope bindings outer) =
     (case bindings name of
        Some v \<Rightarrow> Some v
      | None \<Rightarrow> (case outer of None \<Rightarrow> None | Some s \<Rightarrow> lookup_scope name s))"

definition resolveVariable :: "source_code \<Rightarrow> cursor \<Rightarrow> variable option" where
  "resolveVariable sc identifier = lookup_scope (identifier_name identifier) (getScope sc identifier)"

text \<open>The loop of \<open>lookup_scope\<close> finds the first scope of the chain that binds the name.\<close>

fun scope_chain :: "scope \<Rightarrow> scope list" where
  "scope_chain (Scope bindings outer) =
     Scope bindings outer # (case outer of None \<Rightarrow> [] | Some s \<Rightarrow> scope_chain s)"

lemma lookup_scope_chain:
  "lookup_scope name s =
     (case find (\<lambda>t. scope_set t name \<noteq> None) (scope_chain s) of
        None \<Rightarrow> None | Some t \<Rightarrow> scope_set t name)"
  by (induction s rule: scope_chain.induct) (auto split: option.splits)

lemma lookup_scope_shadow:
  "bindings name = Some v \<Longrightarrow> lookup_scope name (Scope bindings outer) = Some v"
  by simp

lemma lookup_scope_miss:
  "bindings name = None \<Longrightarrow>
   lookup_scope name (Scope bindings (Some s)) = lookup_scope name s"
  by simp

text \<open>\<^verbatim>\<open>references.some(reference => reference.isWrite() && !reference.init)\<close>\<close>

definition reassigned :: "variable \<Rightarrow> bool" where
  "reassigned v \<longleftrightarrow> list_ex (\<lambda>r. ref_isWrite r \<and> \<not> ref_init r) (var_references v)"

subsection \<open>Following initializers\<close>

text \<open>
  Several helpers follow a chain of constants: they look at an expression, and either return
  or continue with another expression, remembering the variables they went through. The
  contract of such a call: it continues with a smaller expression and the same variables, or
  through a variable it has not visited, out of a finite set.
\<close>

locale initializer_chain =
  fixes body :: "cursor \<times> nat list \<Rightarrow> (cursor \<times> nat list, 'r) call" and vars :: "nat set"
  assumes finite_vars: "finite vars"
    and chain_progress: "(d, visited') \<in> set (callees (body (c, visited))) \<Longrightarrow>
      (visited' = visited \<and> size (focus d) < size (focus c)) \<or>
      (\<exists>v \<in> vars. v \<notin> set visited \<and> visited' = v # visited)"
begin

definition chain_order :: "((cursor \<times> nat list) \<times> (cursor \<times> nat list)) set" where
  "chain_order =
     measures [\<lambda>(c, visited). card (vars - set visited), \<lambda>(c, visited). size (focus c)]"

lemma chain_callee_less:
  assumes "(d, visited') \<in> set (callees (body (c, visited)))"
  shows "((d, visited'), (c, visited)) \<in> chain_order"
  using chain_progress [OF assms]
proof (elim disjE bexE conjE)
  fix v assume v: "v \<in> vars" "v \<notin> set visited" "visited' = v # visited"
  then have "card (vars - set visited') < card (vars - set visited)"
    using finite_vars by (intro psubset_card_mono) auto
  then show ?thesis by (simp add: chain_order_def)
qed (simp add: chain_order_def)

end

sublocale initializer_chain \<subseteq> call_recursion body "\<lambda>_. True" chain_order
  by unfold_locales (auto simp: chain_callee_less, simp add: chain_order_def)

text \<open>
  The searches that follow initializers without a visited set would not end on a constant that
  is initialized from itself. \<open>plain_run\<close> is that naive recursion (\<open>Inl\<close> a result, \<open>Inr\<close> the next
  expression), and \<open>plain_result\<close> its value, or the value of a miss when it does not end. The
  contract below says how a search with visited variables relates to the naive one: an
  expression that names a variable already visited is a miss, and what follows a variable
  depends on the variable only.
\<close>

definition plain_run :: "(cursor \<Rightarrow> 'r + cursor) \<Rightarrow> nat \<Rightarrow> cursor \<Rightarrow> 'r option" where
  "plain_run plain n c = run_calls (\<lambda>c. case_sum Done Tail (plain c)) n c"

definition plain_result :: "(cursor \<Rightarrow> 'r + cursor) \<Rightarrow> 'r \<Rightarrow> cursor \<Rightarrow> 'r \<Rightarrow> bool" where
  "plain_result plain miss c r \<longleftrightarrow>
     (\<exists>n. plain_run plain n c = Some r) \<or> ((\<forall>n. plain_run plain n c = None) \<and> r = miss)"

lemma plain_run_simps [simp]:
  "plain_run plain 0 c = None"
  "plain_run plain (Suc n) c = (case plain c of Inl r \<Rightarrow> Some r | Inr d \<Rightarrow> plain_run plain n d)"
  by (simp_all add: plain_run_def split: sum.split)

lemma plain_result_unique:
  assumes "plain_result plain miss c r" and "plain_result plain miss c s"
  shows "r = s"
proof -
  have st: "stable (\<lambda>n. plain_run plain n c)" unfolding plain_run_def by (rule run_calls_stable)
  have "r' = s'" if "plain_run plain n c = Some r'" "plain_run plain m c = Some s'" for n m r' s'
    using stable_ge [OF st that(1), of "max n m"] stable_ge [OF st that(2), of "max n m"] by simp
  with assms show ?thesis unfolding plain_result_def by auto
qed

locale variable_chain =
  fixes body :: "cursor \<times> nat list \<Rightarrow> (cursor \<times> nat list, 'r) call"
    and plain :: "cursor \<Rightarrow> 'r + cursor"
    and through :: "cursor \<Rightarrow> nat option"
    and miss :: 'r
    and vars :: "nat set"
  assumes finite_variables: "finite vars"
    and through_vars: "through c = Some v \<Longrightarrow> v \<in> vars"
    and body_visited: "through c = Some v \<Longrightarrow> v \<in> set visited \<Longrightarrow> body (c, visited) = Done miss"
    and body_variable: "through c = Some v \<Longrightarrow> v \<notin> set visited \<Longrightarrow>
      body (c, visited) = case_sum Done (\<lambda>d. Tail (d, v # visited)) (plain c)"
    and body_expression: "through c = None \<Longrightarrow>
      body (c, visited) = case_sum Done (\<lambda>d. Tail (d, visited)) (plain c)"
    and plain_smaller: "through c = None \<Longrightarrow> plain c = Inr d \<Longrightarrow> size (focus d) < size (focus c)"
    and same_variable: "through c = Some v \<Longrightarrow> through c' = Some v \<Longrightarrow> plain c = plain c'"

sublocale variable_chain \<subseteq> initializer_chain body vars
proof (unfold_locales, goal_cases)
  case (2 d visited' c visited)
  then show ?case
    using body_expression [of c visited] plain_smaller [of c] through_vars [of c]
      body_visited [of c _ visited] body_variable [of c _ visited]
    by (cases "through c"; cases "plain c"; cases "the (through c) \<in> set visited") auto
qed (rule finite_variables)

context variable_chain
begin

abbreviation follow :: "nat \<Rightarrow> cursor \<Rightarrow> 'r option" where
  "follow \<equiv> plain_run plain"

definition height :: "cursor \<Rightarrow> nat" where
  "height c = (LEAST n. follow n c \<noteq> None)"

lemma follow_unique: "follow n c = Some r \<Longrightarrow> follow m c = Some s \<Longrightarrow> r = s"
proof -
  have "stable (\<lambda>n. follow n c)" unfolding plain_run_def by (rule run_calls_stable)
  then show "follow n c = Some r \<Longrightarrow> follow m c = Some s \<Longrightarrow> r = s"
    using stable_ge [of "\<lambda>n. follow n c"] by (metis nle_le option.inject)
qed

lemma height_step:
  assumes "plain c = Inr d" and "follow n d \<noteq> None"
  shows "height c = Suc (height d)"
  unfolding height_def
proof (rule Least_Suc [of _ "Suc n", THEN trans])
  show "follow (Suc n) c \<noteq> None" using assms by simp
qed (simp_all add: assms(1))

lemma visited_agrees:
  assumes "run_calls body m (c, visited) = Some r" and "follow n c = Some s"
    and "\<forall>v \<in> set visited. \<forall>c'. through c' = Some v \<longrightarrow> height c < height c'"
  shows "r = s"
  using assms
proof (induction m arbitrary: c visited n)
  case (Suc m)
  show ?case
  proof (cases "plain c")
    case (Inl r')
    have "r' = s" using Inl Suc.prems(2) by (cases n) simp_all
    moreover have "\<not> (\<exists>v. through c = Some v \<and> v \<in> set visited)" using Suc.prems(3) by fastforce
    ultimately show ?thesis
      using Inl Suc.prems(1) body_expression [of c visited] body_variable [of c _ visited]
      by (cases "through c") auto
  next
    case (Inr d)
    then obtain k where k: "follow k d = Some s" using Suc.prems(2) by (cases n) auto
    then have h: "height c = Suc (height d)" using Inr height_step by blast
    show ?thesis
    proof (cases "through c")
      case None
      then have "run_calls body m (d, visited) = Some r"
        using Suc.prems(1) Inr body_expression [of c visited] by simp
      moreover have "\<forall>v \<in> set visited. \<forall>c'. through c' = Some v \<longrightarrow> height d < height c'"
        using Suc.prems(3) h by fastforce
      ultimately show ?thesis using k by (blast intro: Suc.IH)
    next
      case (Some v)
      then have new: "v \<notin> set visited" using Suc.prems(3) by fastforce
      then have "run_calls body m (d, v # visited) = Some r"
        using Suc.prems(1) Inr Some body_variable [of c v visited] by simp
      moreover have "height c' = Suc (height d)" if "through c' = Some v" for c'
        using same_variable [OF that Some] Inr k by (auto intro: height_step)
      then have "\<forall>w \<in> set (v # visited). \<forall>c'. through c' = Some w \<longrightarrow> height d < height c'"
        using Suc.prems(3) h by fastforce
      ultimately show ?thesis using k by (blast intro: Suc.IH)
    qed
  qed
qed simp

lemma visited_misses:
  assumes "run_calls body m (c, visited) = Some r" and "\<forall>n. follow n c = None"
  shows "r = miss"
  using assms
proof (induction m arbitrary: c visited)
  case (Suc m)
  obtain d where d: "plain c = Inr d"
    using Suc.prems(2) [rule_format, of 1] by (cases "plain c") auto
  then have stuck: "\<forall>n. follow n d = None"
    using Suc.prems(2) [rule_format, of "Suc n" for n] by simp
  show ?case
  proof (cases "through c")
    case None
    then show ?thesis using Suc d stuck body_expression [of c visited] by auto
  next
    case (Some v)
    then show ?thesis
      using Suc d stuck body_visited [of c v visited] body_variable [of c v visited]
      by (cases "v \<in> set visited") auto
  qed
qed simp

lemma visited_sound:
  "run_calls body m (c, visited) = Some r \<Longrightarrow> r = miss \<or> (\<exists>n. plain_run plain n c = Some r)"
proof (induction m arbitrary: c visited)
  case (Suc m)
  have tail: "r = miss \<or> (\<exists>n. plain_run plain n c = Some r)"
    if "body (c, visited) = case_sum Done (\<lambda>d. Tail (d, visited')) (plain c)" for visited'
  proof (cases "plain c")
    case (Inl s)
    with Suc.prems that show ?thesis by (intro disjI2 exI [of _ 1]) simp
  next
    case (Inr d)
    with Suc.prems that have "r = miss \<or> (\<exists>n. plain_run plain n d = Some r)"
      by (intro Suc.IH [of d visited']) simp
    with Inr show ?thesis by (metis plain_run_simps(2) sum.case(2))
  qed
  show ?case
  proof (cases "through c")
    case None
    show ?thesis using tail [OF body_expression [OF None]] .
  next
    case (Some v)
    then show ?thesis
      using Suc.prems body_visited [OF Some, of visited] tail body_variable [OF Some, of visited]
      by (cases "v \<in> set visited") auto
  qed
qed simp

text \<open>
  With enough stack the search returns what the plain recursion returns, and the miss value
  when that does not end.
\<close>

lemma chain_decides: "\<exists>n. \<forall>m\<ge>n. \<exists>r. run_calls body m (c, []) = Some r \<and> plain_result plain miss c r"
proof -
  obtain n where n: "\<forall>m\<ge>n. run_calls body m (c, []) \<noteq> None"
    using calls_converge [of "(c, [])"] unfolding converges_def by blast
  have "plain_result plain miss c r" if r: "run_calls body m (c, []) = Some r" for m r
  proof (cases "\<exists>k. follow k c \<noteq> None")
    case True
    then obtain k s where "follow k c = Some s" by blast
    with visited_agrees [OF r] show ?thesis by (auto simp: plain_result_def)
  next
    case False
    with visited_misses [OF r] show ?thesis by (simp add: plain_result_def)
  qed
  with n show ?thesis by (metis option.exhaust)
qed

end

subsection \<open>The variables of a program\<close>

text \<open>
  A scope manager holds finitely many variables, and each has an identity of its own.
\<close>

definition variables :: "source_code \<Rightarrow> variable set" where
  "variables sc =
     {v. \<exists>c name. lookup_scope name (getScope sc c) = Some v} \<union>
     {v. \<exists>refs \<in> set (scopeReferences sc). \<exists>r \<in> set refs. sref_resolved r = Some v}"

lemma lookup_in_variables: "lookup_scope name (getScope sc c) = Some v \<Longrightarrow> v \<in> variables sc"
  by (auto simp: variables_def)

lemma resolve_in_variables: "resolveVariable sc c = Some v \<Longrightarrow> v \<in> variables sc"
  unfolding resolveVariable_def by (rule lookup_in_variables)

definition well_scoped :: "source_code \<Rightarrow> bool" where
  "well_scoped sc \<longleftrightarrow> finite (variables sc) \<and> inj_on var_id (variables sc)"

lemma empty_scopes_well_scoped:
  assumes "getScope sc = (\<lambda>_. Scope (\<lambda>_. None) None)" and "scopeReferences sc = []"
  shows "well_scoped sc"
  using assms by (simp add: well_scoped_def variables_def)

typedef scope_manager = "{sc :: source_code. well_scoped sc}"
  using empty_scopes_well_scoped
    [of "getScope_update (\<lambda>_ _. Scope (\<lambda>_. None) None) (scopeReferences_update (\<lambda>_. []) undefined)"]
  by auto

lemma scope_manager_rep: "well_scoped (Rep_scope_manager m)"
  using Rep_scope_manager [of m] by simp

lemma scope_manager_abs: "well_scoped sc \<Longrightarrow> Rep_scope_manager (Abs_scope_manager sc) = sc"
  by (simp add: Abs_scope_manager_inverse)

lemma well_scopedD:
  assumes "well_scoped sc"
  shows "finite (var_id ` variables sc)"
    and "v \<in> variables sc \<Longrightarrow> w \<in> variables sc \<Longrightarrow> var_id v = var_id w \<Longrightarrow> v = w"
  using assms by (auto simp: well_scoped_def inj_on_def)

subsection \<open>Options\<close>

text \<open>The values of a configuration file, as \<^verbatim>\<open>context.options\<close> holds them.\<close>

datatype json =
    JNull | JBool bool | JNum int | JStr string | JArr "json list" | JObj "(string \<times> json) list"

subsection \<open>Listeners\<close>

record report =
  rnode :: cursor
  messageId :: string
  rdata :: "(string \<times> string) list"

type_synonym 'st listener = "source_code \<Rightarrow> cursor \<Rightarrow> 'st \<Rightarrow> ('st \<times> report list) option"

primrec run_listener ::
    "'st listener \<Rightarrow> source_code \<Rightarrow> cursor list \<Rightarrow> 'st \<Rightarrow> ('st \<times> report list) option" where
  "run_listener l sc [] st = Some (st, [])"
| "run_listener l sc (c # cs) st =
     (case l sc c st of
        None \<Rightarrow> None
      | Some (st', rs) \<Rightarrow>
          map_option (\<lambda>(st'', rs'). (st'', rs @ rs')) (run_listener l sc cs st'))"

text \<open>A rule without state that never fails is a function from nodes to reports.\<close>

definition stateless :: "(source_code \<Rightarrow> cursor \<Rightarrow> report list) \<Rightarrow> unit listener" where
  "stateless f sc c st = Some ((), f sc c)"

lemma run_stateless [simp]:
  "run_listener (stateless f) sc cs st = Some ((), concat (map (f sc) cs))"
  by (induction cs) (auto simp: stateless_def)

lemma run_listener_const:
  assumes "\<And>c. c \<in> set cs \<Longrightarrow> l sc c st = Some (st, f c)"
  shows "run_listener l sc cs st = Some (st, concat (map f cs))"
  using assms by (induction cs) auto

lemma run_listener_total:
  assumes "\<And>c. c \<in> set cs \<Longrightarrow> \<exists>rs. l sc c st = Some (st, rs)"
  shows "run_listener l sc cs st \<noteq> None"
  using assms by (induction cs) fastforce+

lemma run_listener_abort:
  assumes "\<forall>c \<in> set cs. \<forall>r. l sc c st = Some r \<longrightarrow> fst r = st"
    and "c \<in> set cs" and "l sc c st = None"
  shows "run_listener l sc cs st = None"
  using assms
proof (induction cs)
  case (Cons d cs)
  show ?case
  proof (cases "l sc d st")
    case (Some r)
    with Cons have "fst r = st" "run_listener l sc cs st = None" by (cases r; auto)+
    with Some show ?thesis by (cases r) simp
  qed simp
qed simp

text \<open>The services of a program without variables and comments, for the witnesses.\<close>

definition example_source :: source_code where
  "example_source =
     \<lparr>getScope = (\<lambda>_. Scope (\<lambda>_. None) None), isGlobalReference = (\<lambda>_. False),
      getDeclaredVariables = (\<lambda>_. []), getText = (\<lambda>_. ''''), getCommentsBefore = (\<lambda>_. []),
      scopeReferences = [], sc_visitorKeys = example_keys, sourceText = ''''\<rparr>"

lemma example_well_scoped: "well_scoped example_source"
  by (rule empty_scopes_well_scoped) (simp_all add: example_source_def)

text \<open>The services of \<^verbatim>\<open>const a = a\<close>.\<close>

definition cyclic_declarator :: cursor where
  "cyclic_declarator =
     elems (Cursor (nd ''VariableDeclaration''
       [(''kind'', Prim (PStr ''const'')),
        (''declarations'', Children [nd ''VariableDeclarator''
           [(''id'', Child (ident ''a'')), (''init'', Child (ident ''a''))]])]) []) ''declarations'' ! 0"

definition cyclic_variable :: variable where
  "cyclic_variable =
     \<lparr>var_id = 0, var_name = ''a'', var_identifiers = [child cyclic_declarator ''id''],
      var_defs = [\<lparr>def_type = ''Variable'', def_node = cyclic_declarator,
                   def_parent = parent cyclic_declarator\<rparr>],
      var_references = []\<rparr>"

definition cyclic_source :: source_code where
  "cyclic_source = example_source
     \<lparr>getScope := \<lambda>_. Scope [''a'' \<mapsto> cyclic_variable] None,
      scopeReferences := [[\<lparr>sref_identifier = child cyclic_declarator ''init'',
                            sref_resolved = Some cyclic_variable\<rparr>]]\<rparr>"

lemma cyclic_well_scoped: "well_scoped cyclic_source"
proof -
  have "variables cyclic_source \<subseteq> {cyclic_variable}"
    by (auto simp: variables_def cyclic_source_def split: if_splits)
  then show ?thesis
    by (auto simp: well_scoped_def inj_on_def intro: finite_subset)
qed

subsection \<open>Properties\<close>

text \<open>
  C36: resolveVariable returns the variable bound to the identifier's name by the first scope of
  the chain, innermost first, that binds the name at all, and null when no scope does.
\<close>

theorem resolve_variable_innermost:
  "resolveVariable sc identifier =
     (case find (\<lambda>s. scope_set s (identifier_name identifier) \<noteq> None)
             (scope_chain (getScope sc identifier)) of
        None \<Rightarrow> None
      | Some s \<Rightarrow> scope_set s (identifier_name identifier))"
  unfolding resolveVariable_def by (rule lookup_scope_chain)

end
