(* ===== verification/Function_Parameters.thy ===== *)
theory Function_Parameters
  imports Lint_Context
begin

text \<open>
  \<^verbatim>\<open>shared/function-parameters.ts\<close>: the annotation and the binding name of a function
  parameter, through the wrappers for parameter properties, defaults and rest elements.
\<close>

function containsUnknownType :: "cursor \<Rightarrow> bool" where
  "containsUnknownType type =
     (if kind type = ''TSUnknownKeyword'' then True
      else if kind type = ''TSParenthesizedType''
      then containsUnknownType (child type ''typeAnnotation'')
      else kind type = ''TSUnionType'' \<and> list_ex containsUnknownType (elems type ''types''))"
  by pat_completeness auto
termination
  by (relation "measure (\<lambda>c. size (focus c))")
    (auto simp: size_child_node size_elems kind_not_absent)

declare containsUnknownType.simps [simp del]

function functionParameterTypeAnnotation :: "cursor \<Rightarrow> cursor option" where
  "functionParameterTypeAnnotation parameter =
     (if kind parameter = ''TSParameterProperty''
      then functionParameterTypeAnnotation (child parameter ''parameter'')
      else if kind parameter = ''RestElement''
      then (case opt_child parameter ''typeAnnotation'' of
              Some a \<Rightarrow> Some a
            | None \<Rightarrow> functionParameterTypeAnnotation (child parameter ''argument''))
      else if kind parameter = ''AssignmentPattern''
      then (case opt_child parameter ''typeAnnotation'' of
              Some a \<Rightarrow> Some a
            | None \<Rightarrow> functionParameterTypeAnnotation (child parameter ''left''))
      else opt_child parameter ''typeAnnotation'')"
  by pat_completeness auto
termination
  by (relation "measure (\<lambda>c. size (focus c))") (auto simp: size_child_node kind_not_absent)

declare functionParameterTypeAnnotation.simps [simp del]

function functionParameterBindingName :: "cursor \<Rightarrow> source_code \<Rightarrow> string" where
  "functionParameterBindingName parameter sc =
     (if kind parameter = ''TSParameterProperty''
      then functionParameterBindingName (child parameter ''parameter'') sc
      else if kind parameter = ''AssignmentPattern''
      then functionParameterBindingName (child parameter ''left'') sc
      else if kind parameter = ''RestElement''
      then functionParameterBindingName (child parameter ''argument'') sc
      else if kind parameter = ''Identifier'' then identifier_name parameter
      else (case opt_child parameter ''typeAnnotation'' of
              None \<Rightarrow> getText sc parameter
            | Some a \<Rightarrow> trimEnd (take (startp a - startp parameter) (getText sc parameter))))"
  by pat_completeness auto
termination
  by (relation "measure (\<lambda>(c, sc). size (focus c))") (auto simp: size_child_node kind_not_absent)

declare functionParameterBindingName.simps [simp del]

subsection \<open>Unknown absorbs a union\<close>

text \<open>
  \<open>unknown_leaf c\<close>: an \<^verbatim>\<open>unknown\<close> keyword is reachable from \<open>c\<close> through parentheses and union
  members only.
\<close>

inductive unknown_leaf :: "cursor \<Rightarrow> bool" where
  unknown_keyword: "kind c = ''TSUnknownKeyword'' \<Longrightarrow> unknown_leaf c"
| unknown_parens: "kind c = ''TSParenthesizedType'' \<Longrightarrow>
    unknown_leaf (child c ''typeAnnotation'') \<Longrightarrow> unknown_leaf c"
| unknown_member: "kind c = ''TSUnionType'' \<Longrightarrow> d \<in> set (elems c ''types'') \<Longrightarrow>
    unknown_leaf d \<Longrightarrow> unknown_leaf c"

lemma contains_unknown_sound: "containsUnknownType c \<Longrightarrow> unknown_leaf c"
proof (induction c rule: containsUnknownType.induct)
  case (1 c)
  have eq: "containsUnknownType c \<longleftrightarrow>
      kind c = ''TSUnknownKeyword'' \<or>
      kind c = ''TSParenthesizedType'' \<and> containsUnknownType (child c ''typeAnnotation'') \<or>
      kind c = ''TSUnionType'' \<and> (\<exists>d\<in>set (elems c ''types''). containsUnknownType d)"
    by (simp add: containsUnknownType.simps [of c] list_ex_iff)
  show ?case
    using "1.prems" "1.IH" unfolding eq
    by (elim disjE conjE bexE) (auto intro: unknown_leaf.intros)
qed

lemma contains_unknown_complete: "unknown_leaf c \<Longrightarrow> containsUnknownType c"
proof (induction rule: unknown_leaf.induct)
  case (unknown_keyword c)
  then show ?case by (simp add: containsUnknownType.simps [of c])
next
  case (unknown_parens c)
  then show ?case by (simp add: containsUnknownType.simps [of c])
next
  case (unknown_member c d)
  then show ?case by (auto simp: containsUnknownType.simps [of c] list_ex_iff)
qed

lemma contains_unknown_iff: "containsUnknownType c \<longleftrightarrow> unknown_leaf c"
  using contains_unknown_sound contains_unknown_complete by blast

subsection \<open>Wrappers of a parameter\<close>

text \<open>
  \<open>parameter_core\<close> is the pattern below the wrappers; the name of a parameter is the name
  of its core, whatever it is wrapped in.
\<close>

inductive wraps :: "cursor \<Rightarrow> cursor \<Rightarrow> bool" where
  wraps_property: "kind p = ''TSParameterProperty'' \<Longrightarrow> wraps p (child p ''parameter'')"
| wraps_default: "kind p = ''AssignmentPattern'' \<Longrightarrow> wraps p (child p ''left'')"
| wraps_rest: "kind p = ''RestElement'' \<Longrightarrow> wraps p (child p ''argument'')"

lemma binding_name_wraps:
  "wraps p q \<Longrightarrow> functionParameterBindingName p sc = functionParameterBindingName q sc"
  by (induction rule: wraps.induct) (subst functionParameterBindingName.simps, simp)+

text \<open>
  The annotation of a parameter is the outermost one along the wrappers; a parameter property
  has none of its own.
\<close>

definition annotated :: "cursor \<Rightarrow> bool" where
  "annotated c \<longleftrightarrow> kind c \<noteq> ''TSParameterProperty'' \<and> \<not> null (child c ''typeAnnotation'')"

lemma annotation_wraps:
  "wraps p q \<Longrightarrow> functionParameterTypeAnnotation p =
     (if annotated p then Some (child p ''typeAnnotation'') else functionParameterTypeAnnotation q)"
  by (induction rule: wraps.induct)
    (subst functionParameterTypeAnnotation.simps, simp add: opt_child_def annotated_def)+

lemma wrapped_parameter:
  assumes "successively wraps (p # ws)" and "last (p # ws) = q" and "kind q = ''Identifier''"
  shows "functionParameterBindingName p sc = identifier_name q"
    and "functionParameterTypeAnnotation p =
      map_option (\<lambda>c. child c ''typeAnnotation'') (find annotated (p # ws))"
  using assms
proof (induction ws arbitrary: p)
  case Nil
  { case 1 with Nil show ?case by (simp add: functionParameterBindingName.simps [of q]) }
  { case 2 with Nil show ?case
      by (simp add: functionParameterTypeAnnotation.simps [of q] opt_child_def annotated_def) }
next
  case (Cons w ws)
  { case 1 with Cons.IH(1) [of w] show ?case by (simp add: binding_name_wraps [of p w]) }
  { case 2 with Cons.IH(2) [of w] show ?case by (simp add: annotation_wraps [of p w]) }
qed

text \<open>\<^verbatim>\<open>constructor(private opts: unknown = ...)\<close>\<close>

definition rest_property :: cursor where
  "rest_property = Cursor (nd ''TSParameterProperty'' [(''parameter'', Child
     (nd ''AssignmentPattern'' [(''left'', Child
       (nd ''Identifier'' [(''name'', Prim (PStr ''opts'')),
          (''typeAnnotation'', Child (type_annotation (nd ''TSUnknownKeyword'' [])))]))]))]) []"

lemma rest_property_wraps:
  "successively wraps [rest_property, child rest_property ''parameter'',
     child (child rest_property ''parameter'') ''left'']"
proof -
  have "wraps rest_property (child rest_property ''parameter'')"
    by (rule wraps_property) code_simp
  moreover have "wraps (child rest_property ''parameter'') (child (child rest_property ''parameter'') ''left'')"
    by (rule wraps_default) code_simp
  ultimately show ?thesis by simp
qed

subsection \<open>Properties\<close>

text \<open>
  C35: under any nesting of parameter properties, defaults and rest elements around an
  identifier, the name of the parameter is the name of the identifier, and its annotation is
  the outermost one among those of the defaults, rest elements and the identifier; there is
  none exactly when none of these has one.
\<close>

theorem parameter_name_through_wrappers:
  assumes "successively wraps (p # ws)" and "last (p # ws) = q" and "kind q = ''Identifier''"
  shows "functionParameterBindingName p sc = identifier_name q \<and>
    functionParameterTypeAnnotation p =
      map_option (\<lambda>c. child c ''typeAnnotation'')
        (find (\<lambda>c. kind c \<noteq> ''TSParameterProperty'' \<and> \<not> null (child c ''typeAnnotation'')) (p # ws))"
  using wrapped_parameter [OF assms] unfolding annotated_def by simp

theorem parameter_name_through_wrappers_witness:
  "functionParameterBindingName rest_property example_source = ''opts'' \<and>
   functionParameterTypeAnnotation rest_property =
     Some (child (child (child rest_property ''parameter'') ''left'') ''typeAnnotation'')"
proof -
  let ?w = "child rest_property ''parameter''"
  have k: "last [rest_property, ?w, child ?w ''left''] = child ?w ''left''"
    "kind (child ?w ''left'') = ''Identifier''" by (simp, code_simp)
  have n: "identifier_name (child ?w ''left'') = ''opts''"
    "find (\<lambda>c. kind c \<noteq> ''TSParameterProperty'' \<and> \<not> null (child c ''typeAnnotation''))
       [rest_property, ?w, child ?w ''left''] = Some (child ?w ''left'')" by code_simp+
  show ?thesis
    using parameter_name_through_wrappers [OF rest_property_wraps k, of example_source] unfolding n by simp
qed

end
