(* ===== verification/Unknown_Rules.thy ===== *)
theory Unknown_Rules
  imports Type_Denotation Function_Parameters
begin

text \<open>
  The rules \<^verbatim>\<open>no-unknown-parameters\<close>, \<^verbatim>\<open>no-unknown-returns\<close>, \<^verbatim>\<open>no-unknown-type-aliases\<close> and
  \<^verbatim>\<open>no-object-parameters\<close>.

  The last three resolve aliases. They share their structure: the program's environment is
  created on entry, and a node of a watched kind gives a list of \<^emph>\<open>queries\<close>, a type with the
  report to make when the type resolves to a match. \<open>resolving_listener\<close> is that structure; it
  is proved once, in the locale of the matchers, that it reports exactly the queries whose type
  is found to match.
\<close>

definition parameter_owner_kinds :: "string list" where
  "parameter_owner_kinds =
     [''ArrowFunctionExpression'', ''FunctionDeclaration'', ''FunctionExpression'',
      ''TSCallSignatureDeclaration'', ''TSConstructSignatureDeclaration'', ''TSConstructorType'',
      ''TSDeclareFunction'', ''TSEmptyBodyFunctionExpression'', ''TSFunctionType'',
      ''TSMethodSignature'']"

definition params :: "cursor \<Rightarrow> cursor list" where
  "params c = elems c ''params''"

subsection \<open>no-unknown-parameters\<close>

definition isTypePredicateSubject :: "cursor \<Rightarrow> string \<Rightarrow> bool" where
  "isTypePredicateSubject owner parameterName =
     (let predicate = child (child owner ''returnType'') ''typeAnnotation'' in
      kind predicate = ''TSTypePredicate'' \<and>
      kind (child predicate ''parameterName'') = ''Identifier'' \<and>
      identifier_name (child predicate ''parameterName'') = parameterName)"

definition check_unknown_parameter :: "source_code \<Rightarrow> cursor \<Rightarrow> cursor \<Rightarrow> report list" where
  "check_unknown_parameter sc node parameter =
     (case functionParameterTypeAnnotation parameter of
        None \<Rightarrow> []
      | Some annotation \<Rightarrow>
          if \<not> containsUnknownType (child annotation ''typeAnnotation'') then []
          else let name = functionParameterBindingName parameter sc in
               if name = ''cause'' \<or> isTypePredicateSubject node name then []
               else [\<lparr>rnode = child annotation ''typeAnnotation'', messageId = ''unknownParameter'',
                      rdata = [(''parameter'', name)]\<rparr>])"

definition checkUnknownParameters :: "source_code \<Rightarrow> cursor \<Rightarrow> report list" where
  "checkUnknownParameters sc node = concat (map (check_unknown_parameter sc node) (params node))"

definition noUnknownParametersRule :: "unit listener" where
  "noUnknownParametersRule =
     stateless (\<lambda>sc c. if kind c \<in> set parameter_owner_kinds then checkUnknownParameters sc c else [])"

subsection \<open>Rules that resolve aliases\<close>

record alias_rule_state =
  ar_environment :: "type_alias_environment option"
  ar_cache :: environment_cache

definition enter_program :: "source_code \<Rightarrow> cursor \<Rightarrow> alias_rule_state \<Rightarrow> alias_rule_state" where
  "enter_program sc node st =
     (let (env, cache) = createTypeAliasEnvironment node (sc_visitorKeys sc) (ar_cache st)
      in \<lparr>ar_environment = Some env, ar_cache = cache\<rparr>)"

definition resolves_to ::
    "nat \<Rightarrow> resolved_type_matcher \<Rightarrow> type_alias_environment option \<Rightarrow> cursor \<Rightarrow> bool option" where
  "resolves_to depth matcher environment type =
     (case environment of
        None \<Rightarrow> Some False
      | Some env \<Rightarrow> resolvedTypeMatches depth type env matcher)"

definition check_queries ::
    "nat \<Rightarrow> resolved_type_matcher \<Rightarrow> type_alias_environment option \<Rightarrow> (cursor \<times> report) list \<Rightarrow>
     report list option" where
  "check_queries depth matcher environment qs =
     map_option concat
       (map_opt (\<lambda>q. map_option (\<lambda>b. if b then [snd q] else [])
          (resolves_to depth matcher environment (fst q))) qs)"

definition resolving_listener ::
    "resolved_type_matcher \<Rightarrow> (source_code \<Rightarrow> cursor \<Rightarrow> (cursor \<times> report) list) \<Rightarrow> nat \<Rightarrow>
     alias_rule_state listener" where
  "resolving_listener matcher queries depth sc node st =
     (if kind node = ''Program'' then Some (enter_program sc node st, [])
      else map_option (Pair st)
        (check_queries depth matcher (ar_environment st) (queries sc node)))"

paragraph \<open>no-object-parameters\<close>

definition object_matcher :: resolved_type_matcher where
  "object_matcher resolved matches =
     (if kind resolved = ''TSObjectKeyword'' then Some True
      else if kind resolved = ''TSParenthesizedType'' then matches (child resolved ''typeAnnotation'')
      else if kind resolved = ''TSUnionType'' then some_opt matches (elems resolved ''types'')
      else Some False)"

definition object_query :: "source_code \<Rightarrow> cursor \<Rightarrow> (cursor \<times> report) list" where
  "object_query sc parameter =
     (case functionParameterTypeAnnotation parameter of
        None \<Rightarrow> []
      | Some annotation \<Rightarrow>
          [(child annotation ''typeAnnotation'',
            \<lparr>rnode = child annotation ''typeAnnotation'', messageId = ''objectParameter'',
             rdata = [(''parameter'', functionParameterBindingName parameter sc)]\<rparr>)])"

definition object_queries :: "source_code \<Rightarrow> cursor \<Rightarrow> (cursor \<times> report) list" where
  "object_queries sc node =
     (if kind node \<in> set parameter_owner_kinds then concat (map (object_query sc) (params node))
      else [])"

definition noObjectParametersRule :: "nat \<Rightarrow> alias_rule_state listener" where
  "noObjectParametersRule = resolving_listener object_matcher object_queries"

paragraph \<open>no-unknown-returns\<close>

definition promise_names :: "string list" where
  "promise_names = [''Promise'', ''PromiseLike'']"

definition unknown_return_matcher :: resolved_type_matcher where
  "unknown_return_matcher resolved matches =
     (if kind resolved = ''TSUnknownKeyword'' then Some True
      else if kind resolved = ''TSParenthesizedType'' then matches (child resolved ''typeAnnotation'')
      else if kind resolved = ''TSUnionType'' then some_opt matches (elems resolved ''types'')
      else if kind resolved \<noteq> ''TSTypeReference'' \<or>
              kind (child resolved ''typeName'') \<noteq> ''Identifier'' \<or>
              identifier_name (child resolved ''typeName'') \<notin> set promise_names
      then Some False
      else (case at_index (type_arguments resolved) 0 of
              None \<Rightarrow> Some False
            | Some v \<Rightarrow> matches v))"

definition return_queries :: "source_code \<Rightarrow> cursor \<Rightarrow> (cursor \<times> report) list" where
  "return_queries sc node =
     (if kind node \<in> set parameter_owner_kinds then
        (case opt_child node ''returnType'' of
           None \<Rightarrow> []
         | Some annotation \<Rightarrow>
             [(child annotation ''typeAnnotation'',
               \<lparr>rnode = child annotation ''typeAnnotation'', messageId = ''unknownReturn'',
                rdata = []\<rparr>)])
      else [])"

definition noUnknownReturnsRule :: "nat \<Rightarrow> alias_rule_state listener" where
  "noUnknownReturnsRule = resolving_listener unknown_return_matcher return_queries"

paragraph \<open>no-unknown-type-aliases\<close>

definition unknown_alias_matcher :: resolved_type_matcher where
  "unknown_alias_matcher resolved matches =
     (if kind resolved = ''TSUnknownKeyword'' then Some True
      else if kind resolved = ''TSParenthesizedType'' then matches (child resolved ''typeAnnotation'')
      else if kind resolved = ''TSUnionType'' then some_opt matches (elems resolved ''types'')
      else Some False)"

definition alias_queries :: "source_code \<Rightarrow> cursor \<Rightarrow> (cursor \<times> report) list" where
  "alias_queries sc node =
     (if kind node = ''TSTypeAliasDeclaration'' then
        [(child node ''typeAnnotation'',
          \<lparr>rnode = child node ''id'', messageId = ''unknownAlias'',
           rdata = [(''alias'', identifier_name (child node ''id''))]\<rparr>)]
      else [])"

definition noUnknownTypeAliasesRule :: "nat \<Rightarrow> alias_rule_state listener" where
  "noUnknownTypeAliasesRule = resolving_listener unknown_alias_matcher alias_queries"

subsection \<open>The matchers meet the contract\<close>

definition union_parts :: "cursor \<Rightarrow> cursor list" where
  "union_parts c =
     (if kind c = ''TSParenthesizedType'' then [child c ''typeAnnotation'']
      else if kind c = ''TSUnionType'' then elems c ''types'' else [])"

definition promise_parts :: "cursor \<Rightarrow> cursor list" where
  "promise_parts c =
     (if kind c = ''TSTypeReference'' \<and> kind (child c ''typeName'') = ''Identifier'' \<and>
         identifier_name (child c ''typeName'') \<in> set promise_names
      then (case at_index (type_arguments c) 0 of None \<Rightarrow> [] | Some v \<Rightarrow> [v])
      else union_parts c)"

lemma union_parts_type: "d \<in> set (union_parts c) \<Longrightarrow> d \<in> set (type_parts c)"
  by (auto simp: union_parts_def type_parts_def split: if_splits)

lemma promise_parts_type: "d \<in> set (promise_parts c) \<Longrightarrow> d \<in> set (type_parts c)"
proof (cases "kind c = ''TSTypeReference''")
  case True
  then show "d \<in> set (promise_parts c) \<Longrightarrow> ?thesis"
    by (auto simp: promise_parts_def union_parts_def type_parts_def split: if_splits option.splits
        dest: at_index_mem [OF sym])
next
  case False
  then show "d \<in> set (promise_parts c) \<Longrightarrow> ?thesis"
    using union_parts_type [of d c] by (simp add: promise_parts_def)
qed

interpretation objectp: disjunctive_matcher
  object_matcher "\<lambda>c. kind c = ''TSObjectKeyword''" union_parts "[]"
  by unfold_locales
    (auto simp: union_parts_type object_matcher_def union_parts_def split: option.split if_splits)

interpretation unknown_alias: disjunctive_matcher
  unknown_alias_matcher "\<lambda>c. kind c = ''TSUnknownKeyword''" union_parts "[]"
  by unfold_locales
    (auto simp: union_parts_type unknown_alias_matcher_def union_parts_def split: option.split if_splits)

interpretation unknown_return: disjunctive_matcher
  unknown_return_matcher "\<lambda>c. kind c = ''TSUnknownKeyword''" promise_parts promise_names
proof (unfold_locales, goal_cases)
  case (3 d c name)
  then show ?case
    by (auto simp: promise_parts_def union_parts_def typeReferenceName_def split: if_splits)
next
  case (4 c f)
  then show ?case
    by (auto simp: unknown_return_matcher_def promise_parts_def union_parts_def split: option.split)
qed (auto simp: promise_parts_type)

subsection \<open>What a resolving rule reports\<close>

definition found_reports ::
    "(cursor \<Rightarrow> bool) \<Rightarrow> (cursor \<Rightarrow> cursor list) \<Rightarrow> type_alias_environment \<Rightarrow>
     (cursor \<times> report) list \<Rightarrow> report list" where
  "found_reports hit asks env qs = map snd (filter (\<lambda>q. found hit asks env (fst q)) qs)"

text \<open>No alias of the program takes one of the names \<open>names\<close>.\<close>

definition names_free :: "string list \<Rightarrow> type_alias_environment \<Rightarrow> bool" where
  "names_free names env \<longleftrightarrow>
     list_all (\<lambda>a. identifier_name (child a ''id'') \<notin> set names) (aliases env)"

lemma names_free_Nil [simp]: "names_free [] env"
  by (simp add: names_free_def list_all_iff)

context disjunctive_matcher
begin

lemma check_queries_decides:
  assumes "hygienic env" and "env_ok env" and "names_free reserved env"
  shows "\<exists>n. \<forall>m\<ge>n. check_queries m matcher (Some env) qs = Some (found_reports hit asks env qs)"
proof -
  let ?F = "\<lambda>q m. if resolves_to m matcher (Some env) (fst q) =
      Some (found hit asks env (fst q)) then Some () else None"
  have "converges (?F q)" for q
    using matches_found [of env "fst q"] assms
    unfolding converges_def resolves_to_def names_free_def list_all_iff by auto
  then obtain n where n: "\<forall>m\<ge>n. \<forall>q\<in>set qs. ?F q m \<noteq> None"
    using converges_finite [of "set qs" ?F] by auto
  have "check_queries m matcher (Some env) qs = Some (found_reports hit asks env qs)" if "m \<ge> n" for m
  proof -
    have eq: "\<forall>q\<in>set qs. resolves_to m matcher (Some env) (fst q) =
        Some (found hit asks env (fst q))"
      using n that by (metis (mono_tags, lifting))
    have "map_opt (\<lambda>q. map_option (\<lambda>b. if b then [snd q] else [])
        (resolves_to m matcher (Some env) (fst q))) qs =
      map_opt (\<lambda>q. Some (if found hit asks env (fst q) then [snd q] else [])) qs"
      using eq by (intro map_opt_cong) auto
    moreover have "concat (map (\<lambda>q. if found hit asks env (fst q) then [snd q] else []) qs) =
      found_reports hit asks env qs"
      by (induction qs) (auto simp: found_reports_def)
    ultimately show ?thesis by (simp add: check_queries_def map_opt_Some)
  qed
  then show ?thesis by blast
qed

lemma listener_reports_found:
  assumes "kind p = ''Program''" and "cache_ok (sc_visitorKeys sc) (ar_cache st)"
    and "\<And>c. c \<in> set cs \<Longrightarrow> kind c \<noteq> ''Program''"
    and "hygienic (computeTypeAliasEnvironment p (sc_visitorKeys sc))"
    and "names_free reserved (computeTypeAliasEnvironment p (sc_visitorKeys sc))"
  defines "env \<equiv> computeTypeAliasEnvironment p (sc_visitorKeys sc)"
  shows "\<exists>n. \<forall>m\<ge>n. map_option snd (run_listener (resolving_listener matcher queries m) sc (p # cs) st) =
    Some (concat (map (\<lambda>c. found_reports hit asks env (queries sc c)) cs))"
proof -
  let ?F = "\<lambda>c m. if check_queries m matcher (Some env) (queries sc c) =
      Some (found_reports hit asks env (queries sc c)) then Some () else None"
  have "env_ok env" by (simp add: env_def env_ok_compute)
  then have "converges (?F c)" for c
    using check_queries_decides [of env "queries sc c"] assms(4,5) env_def
    unfolding converges_def by auto
  then obtain n where n: "\<forall>m\<ge>n. \<forall>c\<in>set cs. ?F c m \<noteq> None"
    using converges_finite [of "set cs" ?F] by auto
  have ready: "ar_environment (enter_program sc p st) = Some env"
    using create_cached(1) [OF assms(2)]
    by (simp add: enter_program_def env_def case_prod_beta)
  have "map_option snd (run_listener (resolving_listener matcher queries m) sc (p # cs) st) =
    Some (concat (map (\<lambda>c. found_reports hit asks env (queries sc c)) cs))" if "m \<ge> n" for m
  proof -
    have "resolving_listener matcher queries m sc c (enter_program sc p st) =
        Some (enter_program sc p st, found_reports hit asks env (queries sc c))"
      if "c \<in> set cs" for c
    proof -
      have "check_queries m matcher (Some env) (queries sc c) =
          Some (found_reports hit asks env (queries sc c))"
        using n \<open>m \<ge> n\<close> that by (metis (mono_tags, lifting))
      with ready assms(3) [OF that] show ?thesis by (simp add: resolving_listener_def)
    qed
    then have "run_listener (resolving_listener matcher queries m) sc cs (enter_program sc p st) =
        Some (enter_program sc p st, concat (map (\<lambda>c. found_reports hit asks env (queries sc c)) cs))"
      by (rule run_listener_const)
    moreover have "resolving_listener matcher queries m sc p st = Some (enter_program sc p st, [])"
      by (simp add: resolving_listener_def assms(1))
    ultimately show ?thesis by simp
  qed
  then show ?thesis by blast
qed

end

subsection \<open>Programs of the witnesses\<close>

text \<open>
  \<^verbatim>\<open>type Maybe<T> = T | null; type Options = Maybe<object>; function f(opts: Options) {}\<close>,
  \<^verbatim>\<open>type Maybe<T> = T | null; type Json = Maybe<unknown>; declare function parse(): Promise<Json>\<close>
  and \<^verbatim>\<open>type Id<T> = T; function f(opts: Id<Id<object>>) {}\<close>.
\<close>

definition maybe_alias :: node where
  "maybe_alias = type_alias_decl ''Maybe'' [''T''] (union_type [type_ref ''T'' [], nd ''TSNullKeyword'' []])"

definition parameter_function :: "node \<Rightarrow> node" where
  "parameter_function t = nd ''FunctionDeclaration'' [(''params'', Children
     [nd ''Identifier'' [(''name'', Prim (PStr ''opts'')), (''typeAnnotation'', Child (type_annotation t))]])]"

definition options_program :: cursor where
  "options_program = Cursor (program_node
     [maybe_alias, type_alias_decl ''Options'' [] (type_ref ''Maybe'' [nd ''TSObjectKeyword'' []]),
      parameter_function (type_ref ''Options'' [])]) []"

definition promise_program :: cursor where
  "promise_program = Cursor (program_node
     [maybe_alias, type_alias_decl ''Json'' [] (type_ref ''Maybe'' [nd ''TSUnknownKeyword'' []]),
      nd ''TSDeclareFunction'' [(''returnType'', Child
        (type_annotation (type_ref ''Promise'' [type_ref ''Json'' []])))]]) []"

definition nested_program :: cursor where
  "nested_program = Cursor (program_node
     [type_alias_decl ''Id'' [''T''] (type_ref ''T'' []),
      parameter_function (type_ref ''Id'' [type_ref ''Id'' [nd ''TSObjectKeyword'' []]])]) []"


text \<open>The annotated type of the first parameter of the second statement.\<close>

definition query_of :: "cursor \<Rightarrow> cursor" where
  "query_of p =
     child (child (elems (elems p ''body'' ! 1) ''params'' ! 0) ''typeAnnotation'') ''typeAnnotation''"

definition fresh_state :: alias_rule_state where
  "fresh_state = \<lparr>ar_environment = None, ar_cache = \<lambda>_. None\<rparr>"

lemma fresh_cache_ok: "cache_ok vk (ar_cache fresh_state)"
  by (simp add: fresh_state_def cache_ok_empty)

lemma options_program_ok:
  "kind options_program = ''Program''"
  "\<forall>c \<in> set (elems options_program ''body''). kind c \<noteq> ''Program''"
  "hygienic (computeTypeAliasEnvironment options_program (sc_visitorKeys example_source))"
  by code_simp+

lemma promise_program_ok:
  "kind promise_program = ''Program''"
  "\<forall>c \<in> set (elems promise_program ''body''). kind c \<noteq> ''Program''"
  "hygienic (computeTypeAliasEnvironment promise_program (sc_visitorKeys example_source))"
  "names_free promise_names (computeTypeAliasEnvironment promise_program (sc_visitorKeys example_source))"
  by code_simp+


lemma nested_program_ok:
  "refers (query_of nested_program) ''Id''"
  "visibleTypeAlias ''Id'' (query_of nested_program)
     (computeTypeAliasEnvironment nested_program example_keys) = Some (elems nested_program ''body'' ! 0)"
  "type_parameters (elems nested_program ''body'' ! 0) =
     [type_parameters (elems nested_program ''body'' ! 0) ! 0]"
  "refers (child (elems nested_program ''body'' ! 0) ''typeAnnotation'')
     (type_parameter_name (type_parameters (elems nested_program ''body'' ! 0) ! 0))"
  "type_arguments (child (elems nested_program ''body'' ! 0) ''typeAnnotation'') = []"
  "type_arguments (query_of nested_program) = [type_arguments (query_of nested_program) ! 0]"
  "refers (type_arguments (query_of nested_program) ! 0) ''Id''"
  "visibleTypeAlias ''Id'' (type_arguments (query_of nested_program) ! 0)
     (computeTypeAliasEnvironment nested_program example_keys) = Some (elems nested_program ''body'' ! 0)"
  "type_arguments (type_arguments (query_of nested_program) ! 0) =
     [type_arguments (type_arguments (query_of nested_program) ! 0) ! 0]"
  "kind (type_arguments (type_arguments (query_of nested_program) ! 0) ! 0) = ''TSObjectKeyword''"
  by code_simp+

subsection \<open>Properties\<close>

text \<open>
  C1: on a hygienic program (no alias mentions a parameter of another alias) and with enough
  stack, no-object-parameters reports exactly the parameters whose annotated type reaches the
  object keyword through parentheses, unions, visible aliases and type parameters, statically
  scoped, by a path on which no alias is expanded twice. Recursive aliases do not prevent the
  rule from returning.
\<close>

theorem object_parameters_reported:
  assumes "kind p = ''Program''" and "cache_ok (sc_visitorKeys sc) (ar_cache st)"
    and "\<forall>c \<in> set cs. kind c \<noteq> ''Program''"
    and "hygienic (computeTypeAliasEnvironment p (sc_visitorKeys sc))"
  shows "\<exists>n. \<forall>m\<ge>n. map_option snd (run_listener (noObjectParametersRule m) sc (p # cs) st) =
    Some (concat (map (\<lambda>c. found_reports (\<lambda>t. kind t = ''TSObjectKeyword'') union_parts
      (computeTypeAliasEnvironment p (sc_visitorKeys sc)) (object_queries sc c)) cs))"
  unfolding noObjectParametersRule_def
  using assms by (intro objectp.listener_reports_found) auto

theorem object_parameters_reported_witness:
  "hygienic (computeTypeAliasEnvironment options_program (sc_visitorKeys example_source)) \<and>
   (\<exists>n. \<forall>m\<ge>n. map_option snd (run_listener (noObjectParametersRule m) example_source
      (options_program # elems options_program ''body'') fresh_state) =
    Some (concat (map (\<lambda>c. found_reports (\<lambda>t. kind t = ''TSObjectKeyword'') union_parts
      (computeTypeAliasEnvironment options_program (sc_visitorKeys example_source))
      (object_queries example_source c)) (elems options_program ''body''))))"
  using options_program_ok object_parameters_reported
    [OF options_program_ok(1) fresh_cache_ok options_program_ok(2,3)] by blast

text \<open>
  C7: on a hygienic program in which no alias is called Promise or PromiseLike, and with enough
  stack, no-unknown-returns reports exactly the declared return types that reach the unknown
  keyword through parentheses, unions, the first argument of Promise and PromiseLike, visible
  aliases and type parameters, by a path on which no alias is expanded twice.
\<close>

theorem unknown_returns_reported:
  assumes "kind p = ''Program''" and "cache_ok (sc_visitorKeys sc) (ar_cache st)"
    and "\<forall>c \<in> set cs. kind c \<noteq> ''Program''"
    and "hygienic (computeTypeAliasEnvironment p (sc_visitorKeys sc))"
    and "names_free promise_names (computeTypeAliasEnvironment p (sc_visitorKeys sc))"
  shows "\<exists>n. \<forall>m\<ge>n. map_option snd (run_listener (noUnknownReturnsRule m) sc (p # cs) st) =
    Some (concat (map (\<lambda>c. found_reports (\<lambda>t. kind t = ''TSUnknownKeyword'') promise_parts
      (computeTypeAliasEnvironment p (sc_visitorKeys sc)) (return_queries sc c)) cs))"
  unfolding noUnknownReturnsRule_def
  using assms by (intro unknown_return.listener_reports_found) auto

theorem unknown_returns_reported_witness:
  "hygienic (computeTypeAliasEnvironment promise_program (sc_visitorKeys example_source)) \<and>
   (\<exists>n. \<forall>m\<ge>n. map_option snd (run_listener (noUnknownReturnsRule m) example_source
      (promise_program # elems promise_program ''body'') fresh_state) =
    Some (concat (map (\<lambda>c. found_reports (\<lambda>t. kind t = ''TSUnknownKeyword'') promise_parts
      (computeTypeAliasEnvironment promise_program (sc_visitorKeys example_source))
      (return_queries example_source c)) (elems promise_program ''body''))))"
  using promise_program_ok unknown_returns_reported
    [OF promise_program_ok(1) fresh_cache_ok promise_program_ok(2-4)] by blast

text \<open>
  C24: on a hygienic program and with enough stack, no-unknown-type-aliases reports exactly the
  alias declarations whose body reaches the unknown keyword through parentheses, unions, visible
  aliases and type parameters by a path on which no alias is expanded twice, at the name of the
  alias.
\<close>

theorem unknown_aliases_reported:
  assumes "kind p = ''Program''" and "cache_ok (sc_visitorKeys sc) (ar_cache st)"
    and "\<forall>c \<in> set cs. kind c \<noteq> ''Program''"
    and "hygienic (computeTypeAliasEnvironment p (sc_visitorKeys sc))"
  shows "\<exists>n. \<forall>m\<ge>n. map_option snd (run_listener (noUnknownTypeAliasesRule m) sc (p # cs) st) =
    Some (concat (map (\<lambda>c. found_reports (\<lambda>t. kind t = ''TSUnknownKeyword'') union_parts
      (computeTypeAliasEnvironment p (sc_visitorKeys sc)) (alias_queries sc c)) cs))"
  unfolding noUnknownTypeAliasesRule_def
  using assms by (intro unknown_alias.listener_reports_found) auto

theorem unknown_aliases_reported_witness:
  "hygienic (computeTypeAliasEnvironment promise_program (sc_visitorKeys example_source)) \<and>
   (\<exists>n. \<forall>m\<ge>n. map_option snd (run_listener (noUnknownTypeAliasesRule m) example_source
      (promise_program # elems promise_program ''body'') fresh_state) =
    Some (concat (map (\<lambda>c. found_reports (\<lambda>t. kind t = ''TSUnknownKeyword'') union_parts
      (computeTypeAliasEnvironment promise_program (sc_visitorKeys example_source))
      (alias_queries example_source c)) (elems promise_program ''body''))))"
  using promise_program_ok unknown_aliases_reported
    [OF promise_program_ok(1) fresh_cache_ok promise_program_ok(2,3)] by blast



text \<open>
  C26: an identity alias applied to an application of itself hides its argument: a type A<A<object>>
  with A<T> = T reaches the object keyword, but the resolution of no-object-parameters answers
  false at every stack depth from three on, because A is still being expanded when the argument
  is resolved.
\<close>

theorem nested_application_missed:
  assumes "refers c name" and "visibleTypeAlias name c env = Some a"
    and "type_parameters a = [q]" and "refers (child a ''typeAnnotation'') (type_parameter_name q)"
    and "type_arguments (child a ''typeAnnotation'') = []"
    and "type_arguments c = [d]" and "refers d name'" and "visibleTypeAlias name' d env = Some a"
    and "type_arguments d = [e]" and "kind e = ''TSObjectKeyword''" and "m \<ge> 3"
  shows "resolvedTypeMatches m c env object_matcher = Some False \<and>
    reaches (\<lambda>t. kind t = ''TSObjectKeyword'') union_parts env c (\<lambda>_. None) [a, a]"
proof
  have m: "m = Suc (Suc (Suc (m - 3)))" using assms(11) by simp
  let ?body = "child a ''typeAnnotation''" and ?subs = "[(type_parameter_name q, Substitution d [])]"
  have subs: "aliasSubstitutions a c [] = Some ?subs"
    by (simp add: aliasSubstitutions_def assms at_index_def)
  have 1: "redirect env c [] [] = Some (?body, ?subs, [a])"
    by (rule redirect_alias [OF assms(1) _ assms(2) _ subs]) simp_all
  have 2: "redirect env ?body ?subs [a] = Some (d, [], [a])"
    using redirect_parameter [OF assms(4,5), of ?subs "Substitution d []" env "[a]"] by simp
  have 3: "redirect env d [] [a] = None"
    using assms(7,8) by (simp add: redirect_def alias_redirect_def refers_def)
  show "resolvedTypeMatches m c env object_matcher = Some False"
    using assms(7) by (subst m) (simp add: resolvedTypeMatches_def 1 2 3 object_matcher_def refers_def)
  let ?reaches = "reaches (\<lambda>t. kind t = ''TSObjectKeyword'') union_parts env"
  have "?reaches e (\<lambda>_. None) []" using assms(10) by (rule reaches_hit)
  then have "?reaches ?body (alias_scope a d (\<lambda>_. None)) []"
    by (intro reaches_parameter [OF assms(4,5)]) (simp add: alias_scope_def assms, assumption)
  then have "?reaches d (\<lambda>_. None) [a]"
    by (intro reaches_alias [OF assms(7) _ assms(8)]) (simp_all add: applicable_def assms)
  then have "?reaches ?body (alias_scope a c (\<lambda>_. None)) [a]"
    by (intro reaches_parameter [OF assms(4,5)]) (simp add: alias_scope_def assms, assumption)
  then show "?reaches c (\<lambda>_. None) [a, a]"
    by (intro reaches_alias [OF assms(1) _ assms(2)]) (simp_all add: applicable_def assms)
qed

theorem nested_application_missed_witness:
  "resolvedTypeMatches 3 (query_of nested_program)
     (computeTypeAliasEnvironment nested_program example_keys) object_matcher = Some False \<and>
   reaches (\<lambda>t. kind t = ''TSObjectKeyword'') union_parts
     (computeTypeAliasEnvironment nested_program example_keys) (query_of nested_program) (\<lambda>_. None)
     [elems nested_program ''body'' ! 0, elems nested_program ''body'' ! 0]"
  by (rule nested_application_missed [OF nested_program_ok]) simp

text \<open>
  C23: no-unknown-parameters always returns, and it reports exactly the parameters of the watched
  functions and signatures whose annotation has an unknown keyword reachable through parentheses
  and unions, except parameters named cause and the subject of the owner's type predicate.
\<close>

theorem unknown_parameters_reported:
  "\<exists>rs. run_listener noUnknownParametersRule sc cs () = Some ((), rs) \<and>
     (r \<in> set rs \<longleftrightarrow>
       (\<exists>node \<in> set cs. kind node \<in> set parameter_owner_kinds \<and>
         (\<exists>parameter \<in> set (params node). \<exists>annotation.
            functionParameterTypeAnnotation parameter = Some annotation \<and>
            unknown_leaf (child annotation ''typeAnnotation'') \<and>
            functionParameterBindingName parameter sc \<noteq> ''cause'' \<and>
            isTypePredicateSubject node (functionParameterBindingName parameter sc) = False \<and>
            r = \<lparr>rnode = child annotation ''typeAnnotation'', messageId = ''unknownParameter'',
                 rdata = [(''parameter'', functionParameterBindingName parameter sc)]\<rparr>)))"
proof -
  have "r \<in> set (check_unknown_parameter sc node parameter) \<longleftrightarrow>
      (\<exists>annotation. functionParameterTypeAnnotation parameter = Some annotation \<and>
            unknown_leaf (child annotation ''typeAnnotation'') \<and>
            functionParameterBindingName parameter sc \<noteq> ''cause'' \<and>
            \<not> isTypePredicateSubject node (functionParameterBindingName parameter sc) \<and>
            r = \<lparr>rnode = child annotation ''typeAnnotation'', messageId = ''unknownParameter'',
                 rdata = [(''parameter'', functionParameterBindingName parameter sc)]\<rparr>)" for node parameter
    by (cases "functionParameterTypeAnnotation parameter")
      (auto simp: check_unknown_parameter_def contains_unknown_iff Let_def)
  then show ?thesis
    by (simp add: noUnknownParametersRule_def checkUnknownParameters_def if_distrib [of set] Bex_def conj_commute cong: if_cong) blast
qed

end
