(* ===== verification/Dictionary_Types.thy ===== *)
theory Dictionary_Types
  imports Type_Resolution Lint_Context
begin

text \<open>
  \<^verbatim>\<open>shared/dictionary-types.ts\<close>: which types are dictionaries with an unsafe value type, and
  which annotations are broad targets that a known value is widened to.

  Type arguments are substituted here by a map from parameter names to types, without the
  substitutions of the place where the argument was written. The recursive classifiers are
  given by their calls (\<open>run_calls\<close>): the state of a call is the type, the substitutions and
  the names of the aliases being resolved.
\<close>

type_synonym type_map = "(string \<times> cursor) list"

type_synonym type_state = "cursor \<times> type_map \<times> string list"

record type_environment =
  interfaces :: "string \<Rightarrow> cursor list option"
  typeAliases :: type_alias_environment

datatype unsafe_value = UAny | UEmptyObject | UObject | UUnion | UUnknown

datatype widening_target =
  AnonymousObject | GenericContainer | ObjectTarget | OpenDictionary | UnknownTarget

definition BUILT_INS :: "string list" where
  "BUILT_INS = [''Record'', ''Readonly'', ''Partial'', ''Required'', ''Pick'', ''Omit'',
     ''PropertyKey'', ''NonNullable'']"

definition TRANSPARENT_WRAPPERS :: "string list" where
  "TRANSPARENT_WRAPPERS = [''Readonly'', ''Partial'', ''Required'', ''NonNullable'']"

subsection \<open>The environment\<close>

definition declaredStatement :: "cursor \<Rightarrow> cursor option" where
  "declaredStatement statement =
     (if kind statement \<in> {''ExportNamedDeclaration'', ''ExportDefaultDeclaration''}
      then opt_child statement ''declaration'' else Some statement)"

definition add_interface ::
    "cursor \<Rightarrow> (string \<Rightarrow> cursor list option) \<Rightarrow> (string \<Rightarrow> cursor list option)" where
  "add_interface statement m =
     (case declaredStatement statement of
        None \<Rightarrow> m
      | Some declaration \<Rightarrow>
          if kind declaration \<noteq> ''TSInterfaceDeclaration'' then m
          else let name = identifier_name (child declaration ''id'') in
               m(name \<mapsto> (case m name of None \<Rightarrow> [] | Some ds \<Rightarrow> ds) @ [declaration]))"

definition createTypeEnvironment ::
    "cursor \<Rightarrow> visitor_keys \<Rightarrow> environment_cache \<Rightarrow> type_environment \<times> environment_cache" where
  "createTypeEnvironment program vk cache =
     (let (aliasEnv, cache') = createTypeAliasEnvironment program vk cache
      in (\<lparr>interfaces = fold add_interface (elems program ''body'') (\<lambda>_. None),
           typeAliases = aliasEnv\<rparr>, cache'))"

definition isBuiltIn :: "string \<Rightarrow> cursor \<Rightarrow> type_environment \<Rightarrow> bool" where
  "isBuiltIn name use env \<longleftrightarrow>
     name \<in> set BUILT_INS \<and> \<not> hasVisibleTypeBinding name use (typeAliases env)"

subsection \<open>Syntactic tests\<close>

definition transparent_node :: "cursor \<Rightarrow> bool" where
  "transparent_node c \<longleftrightarrow>
     kind c = ''TSParenthesizedType'' \<or>
     (kind c = ''TSTypeOperator'' \<and> str_of c ''operator'' = ''readonly'')"

definition unwrapTransparentType :: "cursor \<Rightarrow> cursor" where
  "unwrapTransparentType type = unwrap_while transparent_node ''typeAnnotation'' type"

definition isUnappliedReferenceTo :: "cursor \<Rightarrow> string \<Rightarrow> bool" where
  "isUnappliedReferenceTo type name =
     (let unwrapped = unwrapTransparentType type in
      kind unwrapped = ''TSTypeReference'' \<and>
      typeReferenceName unwrapped = Some name \<and> type_arguments unwrapped = [])"

definition isNeverType :: "cursor \<Rightarrow> bool" where
  "isNeverType type \<longleftrightarrow> kind (unwrapTransparentType type) = ''TSNeverKeyword''"

definition isEffectivelyEmptyMember :: "cursor \<Rightarrow> bool" where
  "isEffectivelyEmptyMember member \<longleftrightarrow>
     kind member = ''TSPropertySignature'' \<and> flag_of member ''optional'' \<and>
     \<not> null (child member ''typeAnnotation'') \<and>
     isNeverType (child (child member ''typeAnnotation'') ''typeAnnotation'')"

definition isEffectivelyEmptyTypeLiteral :: "cursor \<Rightarrow> bool" where
  "isEffectivelyEmptyTypeLiteral type \<longleftrightarrow>
     elems type ''members'' = [] \<or> list_all isEffectivelyEmptyMember (elems type ''members'')"

definition isEffectivelyEmptyInterface :: "cursor list \<Rightarrow> bool" where
  "isEffectivelyEmptyInterface declarations =
     (case declarations of
        [type] \<Rightarrow>
          elems type ''extends'' = [] \<and>
          (let body = elems (child type ''body'') ''body'' in
           body = [] \<or> list_all isEffectivelyEmptyMember body)
      | _ \<Rightarrow> False)"

subsection \<open>Substitution of type arguments\<close>

text \<open>The names bound in the map and not yet being resolved are used up.\<close>

lemma unused_names_less:
  assumes "name \<notin> set resolving" and "map_of base name = Some s"
  shows "card (fst ` set base - insert name (set resolving)) < card (fst ` set base - set resolving)"
proof (rule psubset_card_mono)
  show "fst ` set base - insert name (set resolving) \<subset> fst ` set base - set resolving"
    using assms by (force dest: map_of_SomeD)
qed simp

function resolvedSubstitutionArgument ::
    "cursor \<Rightarrow> type_map \<Rightarrow> string list \<Rightarrow> cursor" where
  "resolvedSubstitutionArgument type base resolving =
     (let unwrapped = unwrapTransparentType type in
      if kind unwrapped \<noteq> ''TSTypeReference'' then type
      else case typeReferenceName unwrapped of
             None \<Rightarrow> type
           | Some name \<Rightarrow>
               if name \<in> set resolving then type
               else case map_of base name of
                      None \<Rightarrow> type
                    | Some s \<Rightarrow> resolvedSubstitutionArgument s base (name # resolving))"
  by pat_completeness auto
termination
  by (relation "measure (\<lambda>(type, base, resolving). card (fst ` set base - set resolving))")
    (auto intro: unused_names_less)

declare resolvedSubstitutionArgument.simps [simp del]

fun bind_arguments :: "cursor list \<Rightarrow> nat \<Rightarrow> cursor list \<Rightarrow> type_map \<Rightarrow> type_map option" where
  "bind_arguments [] index args next_map = Some next_map"
| "bind_arguments (parameter # rest) index args next_map =
     (case (case at_index args index of
              Some a \<Rightarrow> Some a | None \<Rightarrow> opt_child parameter ''default'') of
        None \<Rightarrow> None
      | Some argument \<Rightarrow>
          bind_arguments rest (index + 1) args
            ((type_parameter_name parameter,
              resolvedSubstitutionArgument argument next_map []) # next_map))"

definition aliasSubstitution :: "cursor \<Rightarrow> cursor \<Rightarrow> type_map \<Rightarrow> type_map option" where
  "aliasSubstitution alias type base =
     bind_arguments (type_parameters alias) 0 (type_arguments type) base"

text \<open>
  The end of every classifier: a visible alias whose name is not being resolved is replaced
  by its body.
\<close>

definition alias_body ::
    "type_environment \<Rightarrow> cursor \<Rightarrow> string \<Rightarrow> type_map \<Rightarrow> string list \<Rightarrow> type_state option" where
  "alias_body env unwrapped name subs resolving =
     (case visibleTypeAlias name unwrapped (typeAliases env) of
        None \<Rightarrow> None
      | Some alias \<Rightarrow>
          if name \<in> set resolving then None
          else case aliasSubstitution alias unwrapped subs of
                 None \<Rightarrow> None
               | Some next_subs \<Rightarrow>
                   Some (child alias ''typeAnnotation'', next_subs, name # resolving))"

subsection \<open>Unsafe values\<close>

definition combine_intersection :: "unsafe_value option list \<Rightarrow> unsafe_value option" where
  "combine_intersection members =
     (if Some UAny \<in> set members then Some UAny
      else if members \<noteq> [] \<and> None \<notin> set members then hd members else None)"

definition unsafe_reference ::
    "type_environment \<Rightarrow> cursor \<Rightarrow> string \<Rightarrow> type_map \<Rightarrow> string list \<Rightarrow>
     (type_state, unsafe_value option) call" where
  "unsafe_reference env unwrapped name subs resolving =
     (if name \<in> set TRANSPARENT_WRAPPERS \<and> isBuiltIn name unwrapped env
      then (case at_index (type_arguments unwrapped) 0 of
              None \<Rightarrow> Done None
            | Some wrapped \<Rightarrow> Tail (wrapped, subs, resolving))
      else case map_of subs name of
             Some s \<Rightarrow>
               if isUnappliedReferenceTo s name then Done None else Tail (s, subs, resolving)
           | None \<Rightarrow>
               (case interfaces env name of
                  Some declarations \<Rightarrow>
                    Done (if isEffectivelyEmptyInterface declarations then Some UEmptyObject else None)
                | None \<Rightarrow>
                    (case alias_body env unwrapped name subs resolving of
                       None \<Rightarrow> Done None | Some st \<Rightarrow> Tail st)))"

definition unsafe_call ::
    "type_environment \<Rightarrow> type_state \<Rightarrow> (type_state, unsafe_value option) call" where
  "unsafe_call env st =
     (case st of (type, subs, resolving) \<Rightarrow>
        let unwrapped = unwrapTransparentType type in
        if kind unwrapped = ''TSUnknownKeyword'' then Done (Some UUnknown)
        else if kind unwrapped = ''TSAnyKeyword'' then Done (Some UAny)
        else if kind unwrapped = ''TSObjectKeyword'' then Done (Some UObject)
        else if kind unwrapped = ''TSTypeLiteral'' \<and> isEffectivelyEmptyTypeLiteral unwrapped
        then Done (Some UEmptyObject)
        else if kind unwrapped = ''TSUnionType''
        then AnyCall (map (\<lambda>member. (member, subs, resolving)) (elems unwrapped ''types''))
               (\<lambda>r. r \<noteq> None) (\<lambda>b. if b then Some UUnion else None)
        else if kind unwrapped = ''TSIntersectionType''
        then AllCalls (map (\<lambda>member. (member, subs, resolving)) (elems unwrapped ''types''))
               combine_intersection
        else if kind unwrapped \<noteq> ''TSTypeReference'' then Done None
        else case typeReferenceName unwrapped of
               None \<Rightarrow> Done None
             | Some name \<Rightarrow> unsafe_reference env unwrapped name subs resolving)"

definition unsafeDirectValue ::
    "nat \<Rightarrow> cursor \<Rightarrow> type_environment \<Rightarrow> type_map \<Rightarrow> string list \<Rightarrow> unsafe_value option option" where
  "unsafeDirectValue depth type env subs resolving =
     run_calls (unsafe_call env) depth (type, subs, resolving)"

subsection \<open>Values of a dictionary\<close>

type_synonym resolved_type = "cursor \<times> type_map"

definition dictionary_reference ::
    "type_environment \<Rightarrow> cursor \<Rightarrow> string \<Rightarrow> type_map \<Rightarrow> string list \<Rightarrow>
     (type_state, resolved_type list) call" where
  "dictionary_reference env unwrapped name subs resolving =
     (case map_of subs name of
        Some s \<Rightarrow>
          if isUnappliedReferenceTo s name then Done [] else Tail (s, subs, resolving)
      | None \<Rightarrow>
          if name \<in> set TRANSPARENT_WRAPPERS \<and> isBuiltIn name unwrapped env
          then (case at_index (type_arguments unwrapped) 0 of
                  None \<Rightarrow> Done [] | Some wrapped \<Rightarrow> Tail (wrapped, subs, resolving))
          else if name = ''Record'' \<and> isBuiltIn name unwrapped env
          then (case at_index (type_arguments unwrapped) 1 of
                  None \<Rightarrow> Done [] | Some v \<Rightarrow> Done [(v, subs)])
          else if (name = ''Pick'' \<or> name = ''Omit'') \<and> isBuiltIn name unwrapped env
          then (case at_index (type_arguments unwrapped) 0 of
                  None \<Rightarrow> Done [] | Some source \<Rightarrow> Tail (source, subs, resolving))
          else (case alias_body env unwrapped name subs resolving of
                  None \<Rightarrow> Done [] | Some st \<Rightarrow> Tail st))"

definition dictionary_call ::
    "type_environment \<Rightarrow> type_state \<Rightarrow> (type_state, resolved_type list) call" where
  "dictionary_call env st =
     (case st of (type, subs, resolving) \<Rightarrow>
        let unwrapped = unwrapTransparentType type in
        if kind unwrapped = ''TSTypeLiteral''
        then Done (concat (map (\<lambda>member.
               if kind member = ''TSIndexSignature'' \<and> \<not> null (child member ''typeAnnotation'')
               then [(child (child member ''typeAnnotation'') ''typeAnnotation'', subs)] else [])
             (elems unwrapped ''members'')))
        else if kind unwrapped = ''TSMappedType''
        then (case opt_child unwrapped ''typeAnnotation'' of
                None \<Rightarrow> Done [] | Some v \<Rightarrow> Done [(v, subs)])
        else if kind unwrapped \<noteq> ''TSTypeReference'' then Done []
        else case typeReferenceName unwrapped of
               None \<Rightarrow> Done []
             | Some name \<Rightarrow> dictionary_reference env unwrapped name subs resolving)"

definition dictionaryValueTypes ::
    "nat \<Rightarrow> cursor \<Rightarrow> type_environment \<Rightarrow> type_map \<Rightarrow> string list \<Rightarrow> resolved_type list option" where
  "dictionaryValueTypes depth type env subs resolving =
     run_calls (dictionary_call env) depth (type, subs, resolving)"

definition classifyUnsafeDictionaryValue ::
    "nat \<Rightarrow> cursor \<Rightarrow> type_environment \<Rightarrow> unsafe_value option option" where
  "classifyUnsafeDictionaryValue depth valueType env = unsafeDirectValue depth valueType env [] []"

fun first_unsafe ::
    "nat \<Rightarrow> type_environment \<Rightarrow> resolved_type list \<Rightarrow> unsafe_value option option" where
  "first_unsafe depth env [] = Some None"
| "first_unsafe depth env ((type, subs) # rest) =
     (case unsafeDirectValue depth type env subs [] of
        None \<Rightarrow> None
      | Some (Some v) \<Rightarrow> Some (Some v)
      | Some None \<Rightarrow> first_unsafe depth env rest)"

definition classifyUnsafeDictionary ::
    "nat \<Rightarrow> cursor \<Rightarrow> type_environment \<Rightarrow> unsafe_value option option" where
  "classifyUnsafeDictionary depth type env =
     (case dictionaryValueTypes depth type env [] [] of
        None \<Rightarrow> None
      | Some values \<Rightarrow> first_unsafe depth env values)"

subsection \<open>Broad keys\<close>

definition broad_key_alias ::
    "type_environment \<Rightarrow> cursor \<Rightarrow> string \<Rightarrow> type_map \<Rightarrow> string list \<Rightarrow> (type_state, bool) call" where
  "broad_key_alias env unwrapped name subs visitedAliases =
     (if name = ''PropertyKey'' \<and> isBuiltIn name unwrapped env then Done True
      else case visibleTypeAlias name unwrapped (typeAliases env) of
             None \<Rightarrow> Done False
           | Some alias \<Rightarrow>
               if length (type_parameters alias) > 0 \<or> name \<in> set visitedAliases then Done False
               else Tail (child alias ''typeAnnotation'', subs, name # visitedAliases))"

definition broad_key_reference ::
    "type_environment \<Rightarrow> cursor \<Rightarrow> string \<Rightarrow> type_map \<Rightarrow> string list \<Rightarrow> (type_state, bool) call" where
  "broad_key_reference env unwrapped name subs visitedAliases =
     (case map_of subs name of
        Some s \<Rightarrow>
          if \<not> isUnappliedReferenceTo s name then Tail (s, subs, visitedAliases)
          else broad_key_alias env unwrapped name subs visitedAliases
      | None \<Rightarrow> broad_key_alias env unwrapped name subs visitedAliases)"

definition broad_key_call :: "type_environment \<Rightarrow> type_state \<Rightarrow> (type_state, bool) call" where
  "broad_key_call env st =
     (case st of (type, subs, visitedAliases) \<Rightarrow>
        let unwrapped = unwrapTransparentType type in
        if kind unwrapped \<in> {''TSStringKeyword'', ''TSNumberKeyword'', ''TSSymbolKeyword''}
        then Done True
        else if kind unwrapped = ''TSUnionType''
        then AnyCall (map (\<lambda>member. (member, subs, visitedAliases)) (elems unwrapped ''types''))
               (\<lambda>b. b) (\<lambda>b. b)
        else if kind unwrapped \<noteq> ''TSTypeReference'' then Done False
        else case typeReferenceName unwrapped of
               None \<Rightarrow> Done False
             | Some name \<Rightarrow> broad_key_reference env unwrapped name subs visitedAliases)"

definition isBroadMappedKey ::
    "nat \<Rightarrow> cursor \<Rightarrow> type_environment \<Rightarrow> type_map \<Rightarrow> string list \<Rightarrow> bool option" where
  "isBroadMappedKey depth type env subs visitedAliases =
     run_calls (broad_key_call env) depth (type, subs, visitedAliases)"

definition hasBroadRecordKey ::
    "nat \<Rightarrow> cursor \<Rightarrow> type_environment \<Rightarrow> type_map \<Rightarrow> bool option" where
  "hasBroadRecordKey depth type env subs =
     (case at_index (type_arguments type) 0 of
        None \<Rightarrow> Some True
      | Some key \<Rightarrow> isBroadMappedKey depth key env subs [])"

subsection \<open>Targets of a widening\<close>

text \<open>
  \<^verbatim>\<open>classifyAliasBroadTarget\<close> asks about keys on the way; the answer \<open>None\<close> of that inner
  recursion is carried out through the result of the outer one.
\<close>

definition open_if :: "bool option \<Rightarrow> widening_target option option" where
  "open_if b = map_option (\<lambda>b. if b then Some OpenDictionary else None) b"

definition alias_target_reference ::
    "nat \<Rightarrow> type_environment \<Rightarrow> cursor \<Rightarrow> string \<Rightarrow> type_map \<Rightarrow> string list \<Rightarrow>
     (type_state, widening_target option option) call" where
  "alias_target_reference depth env unwrapped name subs resolving =
     (case map_of subs name of
        Some s \<Rightarrow>
          if isUnappliedReferenceTo s name then Done (Some None) else Tail (s, subs, resolving)
      | None \<Rightarrow>
          if name \<in> set TRANSPARENT_WRAPPERS \<and> isBuiltIn name unwrapped env
          then (case at_index (type_arguments unwrapped) 0 of
                  None \<Rightarrow> Done (Some None) | Some wrapped \<Rightarrow> Tail (wrapped, subs, resolving))
          else if name = ''Record'' \<and> isBuiltIn name unwrapped env
          then Done (open_if (hasBroadRecordKey depth unwrapped env subs))
          else (case alias_body env unwrapped name subs resolving of
                  None \<Rightarrow> Done (Some None) | Some st \<Rightarrow> Tail st))"

definition alias_target_call ::
    "nat \<Rightarrow> type_environment \<Rightarrow> type_state \<Rightarrow> (type_state, widening_target option option) call" where
  "alias_target_call depth env st =
     (case st of (type, subs, resolving) \<Rightarrow>
        let unwrapped = unwrapTransparentType type in
        if kind unwrapped = ''TSUnknownKeyword'' then Done (Some (Some UnknownTarget))
        else if kind unwrapped = ''TSObjectKeyword'' then Done (Some (Some ObjectTarget))
        else if kind unwrapped = ''TSTypeLiteral''
        then Done (Some (if list_ex (\<lambda>m. kind m = ''TSIndexSignature'') (elems unwrapped ''members'')
                         then Some OpenDictionary else None))
        else if kind unwrapped = ''TSMappedType''
        then Done (open_if (isBroadMappedKey depth (child unwrapped ''constraint'') env subs []))
        else if kind unwrapped \<noteq> ''TSTypeReference'' then Done (Some None)
        else case typeReferenceName unwrapped of
               None \<Rightarrow> Done (Some None)
             | Some name \<Rightarrow> alias_target_reference depth env unwrapped name subs resolving)"

definition classifyAliasBroadTarget ::
    "nat \<Rightarrow> cursor \<Rightarrow> type_environment \<Rightarrow> type_map \<Rightarrow> string list \<Rightarrow> widening_target option option"
where
  "classifyAliasBroadTarget depth type env subs resolving =
     (case run_calls (alias_target_call depth env) depth (type, subs, resolving) of
        None \<Rightarrow> None | Some r \<Rightarrow> r)"

definition classify_alias_reference ::
    "nat \<Rightarrow> type_environment \<Rightarrow> cursor \<Rightarrow> string \<Rightarrow> widening_target option option" where
  "classify_alias_reference depth env unwrapped name =
     (case visibleTypeAlias name unwrapped (typeAliases env) of
        None \<Rightarrow> Some None
      | Some alias \<Rightarrow>
          let resolved =
            (case aliasSubstitution alias unwrapped [] of
               None \<Rightarrow> Some None
             | Some subs \<Rightarrow>
                 classifyAliasBroadTarget depth (child alias ''typeAnnotation'') env subs [name])
          in if length (type_parameters alias) > 0
             then map_option (\<lambda>r. if r = Some OpenDictionary then Some GenericContainer else None) resolved
             else resolved)"

lemma wrapped_smaller:
  assumes "kind (unwrapTransparentType c) = ''TSTypeReference''"
    and "at_index (type_arguments (unwrapTransparentType c)) i = Some w"
  shows "size (focus w) < size (focus c)"
  using type_arguments_smaller [OF assms(1) at_index_mem [OF assms(2)]]
    size_unwrap_while [of transparent_node "''typeAnnotation''" c]
  by (simp add: unwrapTransparentType_def)

function classifyWideningTarget ::
    "nat \<Rightarrow> cursor \<Rightarrow> type_environment \<Rightarrow> widening_target option option" where
  "classifyWideningTarget depth type env =
     (let unwrapped = unwrapTransparentType type in
      if kind unwrapped = ''TSUnknownKeyword'' then Some (Some UnknownTarget)
      else if kind unwrapped = ''TSObjectKeyword'' then Some (Some ObjectTarget)
      else if kind unwrapped = ''TSTypeLiteral''
      then Some (if list_ex (\<lambda>m. kind m = ''TSIndexSignature'') (elems unwrapped ''members'')
                 then Some OpenDictionary
                 else if length (elems unwrapped ''members'') > 0 then Some AnonymousObject else None)
      else if kind unwrapped = ''TSMappedType'' then Some (Some OpenDictionary)
      else if kind unwrapped \<noteq> ''TSTypeReference'' then Some None
      else case typeReferenceName unwrapped of
             None \<Rightarrow> Some None
           | Some name \<Rightarrow>
               if name \<in> set TRANSPARENT_WRAPPERS \<and> isBuiltIn name unwrapped env
               then (case at_index (type_arguments unwrapped) 0 of
                       None \<Rightarrow> Some None
                     | Some wrapped \<Rightarrow> classifyWideningTarget depth wrapped env)
               else if name = ''Record'' \<and> isBuiltIn name unwrapped env
               then open_if (hasBroadRecordKey depth unwrapped env [])
               else classify_alias_reference depth env unwrapped name)"
  by pat_completeness auto
termination
  by (relation "measure (\<lambda>(depth, c, env). size (focus c))") (auto simp: wrapped_smaller)

declare classifyWideningTarget.simps [simp del]

subsection \<open>Evidence in an expression\<close>

definition isPopulatedObjectExpression :: "cursor \<Rightarrow> bool" where
  "isPopulatedObjectExpression expression =
     (let current = unwrap_while (\<lambda>c. kind c \<in> {''ParenthesizedExpression'', ''TSAsExpression'',
            ''TSTypeAssertion'', ''TSNonNullExpression''}) ''expression'' expression
      in kind current = ''ObjectExpression'' \<and> length (elems current ''properties'') > 0)"

definition isKnownEvidenceExpression :: "cursor \<Rightarrow> bool" where
  "isKnownEvidenceExpression expression =
     (let current = unwrap_while (\<lambda>c. kind c \<in> {''ParenthesizedExpression'', ''TSAsExpression'',
            ''TSTypeAssertion'', ''TSNonNullExpression'', ''TSSatisfiesExpression''})
            ''expression'' expression
      in kind current = ''ObjectExpression'' \<or>
         kind current \<in> {''ArrayExpression'', ''ArrowFunctionExpression'', ''ClassExpression'',
           ''FunctionExpression'', ''NewExpression'', ''Literal'', ''TemplateLiteral'',
           ''UnaryExpression''})"

end
