(* ===== verification/Dictionary_Termination.thy ===== *)
theory Dictionary_Termination
  imports Dictionary_Types
begin

text \<open>
  When the classifiers of \<^verbatim>\<open>shared/dictionary-types.ts\<close> return.

  The substitution maps forget where an argument was written, so an argument that mentions
  the type parameter it is bound to leads back to itself; only an argument that is just that
  parameter is caught. The classifiers return on \<open>ranked\<close> programs: the names of the alias
  parameters have ranks such that every argument bound to a parameter, and every default,
  mentions parameter names of lower rank only, or is just the parameter's own name.
\<close>

subsection \<open>Names inside a type\<close>

primrec subnodes :: "node \<Rightarrow> node list" and prop_subnodes :: "property \<Rightarrow> node list" where
  "subnodes Absent = []"
| "subnodes (Node k sp fs) = Node k sp fs # concat (map snd (map (map_prod id prop_subnodes) fs))"
| "prop_subnodes (Prim v) = []"
| "prop_subnodes (Child d) = subnodes d"
| "prop_subnodes (Children ds) = concat (map subnodes ds)"

lemma subnodes_prop: "prop_of n key = Some p \<Longrightarrow> set (prop_subnodes p) \<subseteq> set (subnodes n)"
  by (cases n) (force dest: map_of_SomeD)+

lemma subnodes_child: "set (subnodes (child_node n key)) \<subseteq> set (subnodes n)"
proof (cases "prop_of n key")
  case (Some p)
  with subnodes_prop [OF Some] show ?thesis by (cases p) (auto simp: child_node_def)
qed (simp add: child_node_def)

lemma subnodes_children: "d \<in> set (children_nodes n key) \<Longrightarrow> set (subnodes d) \<subseteq> set (subnodes n)"
proof (cases "prop_of n key")
  case (Some p)
  with subnodes_prop [OF Some] show "d \<in> set (children_nodes n key) \<Longrightarrow> ?thesis"
    by (cases p) (auto simp: children_nodes_def)
qed (simp add: children_nodes_def)

definition below :: "cursor \<Rightarrow> cursor \<Rightarrow> bool" where
  "below d c \<longleftrightarrow> set (subnodes (focus d)) \<subseteq> set (subnodes (focus c))"

lemma below_refl [simp]: "below c c"
  by (simp add: below_def)

lemma below_trans: "below a b \<Longrightarrow> below b c \<Longrightarrow> below a c"
  by (auto simp: below_def)

lemma below_child: "below (child c key) c"
  by (simp add: below_def subnodes_child)

lemma below_elems: "d \<in> set (elems c key) \<Longrightarrow> below d c"
  unfolding below_def
  by (metis imageI list.set_map map_focus_elems subnodes_children)

lemma below_unwrap: "below (unwrap_while P key c) c"
proof (induction P key c rule: unwrap_while.induct)
  case (1 P key c)
  then show ?case
    using below_child [of c key]
    by (cases "focus c \<noteq> Absent \<and> P c")
      (auto simp: unwrap_while.simps [of P key c] intro: below_trans)
qed

lemma below_type_arguments: "d \<in> set (type_arguments c) \<Longrightarrow> below d c"
  unfolding type_arguments_def by (blast intro: below_trans below_elems below_child)

lemma below_argument: "at_index (type_arguments c) i = Some d \<Longrightarrow> below d c"
  by (blast intro: below_type_arguments at_index_mem)

lemma valid_trail_subnodes:
  "valid_trail f t \<Longrightarrow> set (subnodes f) \<subseteq> set (subnodes (root_of f t))"
proof (induction f t rule: valid_trail.induct)
  case (2 f s p t)
  have "set (subnodes f) \<subseteq> set (subnodes p)"
    using "2.prems" subnodes_child [of p] subnodes_children [OF at_index_mem]
    by (cases s) (fastforce split: option.splits)+
  with 2 show ?case by simp
qed simp

lemma valid_ancestors:
  "valid c \<Longrightarrow> a \<in> set (ancestors c) \<Longrightarrow> valid a \<and> root a = root c"
proof -
  have "valid_trail f t \<Longrightarrow> a \<in> set (up t) \<Longrightarrow> valid a \<and> root a = root_of f t" for f t
    by (induction f t rule: valid_trail.induct) (auto simp: valid_def root_def)
  then show "valid c \<Longrightarrow> a \<in> set (ancestors c) \<Longrightarrow> ?thesis"
    by (simp add: valid_def [of c] root_def [of c] ancestors_def)
qed

lemma valid_below_program:
  "valid c \<Longrightarrow> root c = focus p \<Longrightarrow> a \<in> set (c # ancestors c) \<Longrightarrow> below a p"
  using valid_ancestors [of c a] valid_trail_subnodes [of "focus a" "trail a"]
  by (auto simp: below_def valid_def root_def)

definition node_reference_name :: "node \<Rightarrow> string option" where
  "node_reference_name n =
     (if node_kind n = ''TSTypeReference'' then typeReferenceName (Cursor n []) else None)"

definition node_arguments :: "node \<Rightarrow> node list" where
  "node_arguments n = children_nodes (child_node n ''typeArguments'') ''params''"

definition mentioned :: "node \<Rightarrow> string list" where
  "mentioned n =
     concat (map (\<lambda>m. case node_reference_name m of None \<Rightarrow> [] | Some name \<Rightarrow> [name]) (subnodes n))"

text \<open>The names in \<open>S\<close> that are mentioned inside \<open>n\<close> have a rank below \<open>b\<close>.\<close>

definition ranked_below :: "(string \<Rightarrow> nat) \<Rightarrow> string list \<Rightarrow> nat \<Rightarrow> node \<Rightarrow> bool" where
  "ranked_below rank S b n \<longleftrightarrow>
     list_all (\<lambda>name. name \<in> set S \<longrightarrow> rank name < b) (mentioned n)"

text \<open>What may be bound to the parameter \<open>k\<close>.\<close>

definition bindable :: "(string \<Rightarrow> nat) \<Rightarrow> string list \<Rightarrow> string \<Rightarrow> cursor \<Rightarrow> bool" where
  "bindable rank S k t \<longleftrightarrow>
     ranked_below rank S (rank k) (focus t) \<or>
     isUnappliedReferenceTo t k \<and> ranked_below rank S (Suc (rank k)) (focus t)"

definition alias_name :: "cursor \<Rightarrow> string" where
  "alias_name a = identifier_name (child a ''id'')"

text \<open>The arguments inside \<open>n\<close> of references that name an alias may be bound to its parameters.\<close>

definition ranked_arguments ::
    "(string \<Rightarrow> nat) \<Rightarrow> type_alias_environment \<Rightarrow> node \<Rightarrow> bool" where
  "ranked_arguments rank env n \<longleftrightarrow>
     list_all (\<lambda>m. case node_reference_name m of
         None \<Rightarrow> True
       | Some name \<Rightarrow>
           list_all (\<lambda>a. alias_name a = name \<longrightarrow>
               list_all (\<lambda>(k, t). bindable rank (all_parameters env) k (Cursor t []))
                 (zip (parameter_names a) (node_arguments m)))
             (aliases env)) (subnodes n)"

lemma mentioned_below: "below d c \<Longrightarrow> set (mentioned (focus d)) \<subseteq> set (mentioned (focus c))"
  by (force simp: mentioned_def below_def)

lemma ranked_below_below:
  "below d c \<Longrightarrow> ranked_below rank S b (focus c) \<Longrightarrow> ranked_below rank S b (focus d)"
  using mentioned_below [of d c] by (auto simp: ranked_below_def list_all_iff)

lemma ranked_below_mono: "ranked_below rank S b n \<Longrightarrow> b \<le> b' \<Longrightarrow> ranked_below rank S b' n"
  by (auto simp: ranked_below_def list_all_iff)

lemma ranked_arguments_below:
  "below d c \<Longrightarrow> ranked_arguments rank env (focus c) \<Longrightarrow> ranked_arguments rank env (focus d)"
  unfolding ranked_arguments_def below_def list_all_iff by blast

text \<open>What is bindable depends on the node only.\<close>

lemma kind_focus: "focus c = focus d \<Longrightarrow> kind c = kind d"
  by (simp add: kind_def)

lemma str_of_focus: "focus c = focus d \<Longrightarrow> str_of c key = str_of d key"
  by (simp add: str_of_def prim_of_def)

lemma reference_name_focus: "focus c = focus d \<Longrightarrow> typeReferenceName c = typeReferenceName d"
  by (simp add: typeReferenceName_def kind_def identifier_name_def str_of_def prim_of_def)

lemma arguments_focus: "focus c = focus d \<Longrightarrow> type_arguments c = [] \<longleftrightarrow> type_arguments d = []"
  by (simp add: type_arguments_def flip: length_0_conv)

lemma unwrap_transparent_focus:
  "focus c = focus d \<Longrightarrow> focus (unwrapTransparentType c) = focus (unwrapTransparentType d)"
  unfolding unwrapTransparentType_def
proof (induction transparent_node "''typeAnnotation''" c arbitrary: d rule: unwrap_while.induct)
  case (1 c)
  have "transparent_node c = transparent_node d"
    using kind_focus [OF 1(2)] str_of_focus [OF 1(2)] by (simp add: transparent_node_def)
  with 1 show ?case
    by (cases "focus c \<noteq> Absent \<and> transparent_node c")
      (auto simp: unwrap_while.simps [of _ _ c] unwrap_while.simps [of _ _ d])
qed

lemma bindable_focus: "focus c = focus d \<Longrightarrow> bindable rank S k c \<longleftrightarrow> bindable rank S k d"
proof -
  assume same: "focus c = focus d"
  note u = unwrap_transparent_focus [OF same]
  have "isUnappliedReferenceTo c k = isUnappliedReferenceTo d k"
    unfolding isUnappliedReferenceTo_def Let_def
    using kind_focus [OF u] reference_name_focus [OF u] arguments_focus [OF u] by simp
  with same show ?thesis by (simp add: bindable_def)
qed

lemma reference_subnode:
  assumes "kind u = ''TSTypeReference''" and "typeReferenceName u = Some name"
  shows "focus u \<in> set (subnodes (focus u))" and "node_reference_name (focus u) = Some name"
proof -
  show "focus u \<in> set (subnodes (focus u))"
    using assms(1) by (cases "focus u") (auto simp: kind_def)
  show "node_reference_name (focus u) = Some name"
    using assms
    by (auto simp: node_reference_name_def kind_def typeReferenceName_def identifier_name_def
        str_of_def prim_of_def split: if_splits)
qed

lemma reference_mentioned:
  assumes "kind (unwrapTransparentType t) = ''TSTypeReference''"
    and "typeReferenceName (unwrapTransparentType t) = Some name"
  shows "name \<in> set (mentioned (focus t))"
proof -
  have "name \<in> set (mentioned (focus (unwrapTransparentType t)))"
    using reference_subnode [OF assms] by (force simp: mentioned_def)
  then show ?thesis
    using mentioned_below [OF below_unwrap] unfolding unwrapTransparentType_def by blast
qed

lemma ranked_reference_arguments:
  assumes "kind u = ''TSTypeReference''" and "typeReferenceName u = Some name"
    and "a \<in> set (aliases env)" and "alias_name a = name"
    and "ranked_arguments rank env (focus u)" and "i < length (parameter_names a)"
    and "at_index (type_arguments u) i = Some t"
  shows "bindable rank (all_parameters env) (parameter_names a ! i) t"
proof -
  have i: "i < length (type_arguments u)" and t: "t = type_arguments u ! i"
    using assms(7) by (auto simp: at_index_def split: if_splits)
  have args: "node_arguments (focus u) = map focus (type_arguments u)"
    by (simp add: node_arguments_def type_arguments_def)
  have "list_all (\<lambda>(k, t). bindable rank (all_parameters env) k (Cursor t []))
      (zip (parameter_names a) (node_arguments (focus u)))"
    using assms(3-5) reference_subnode [OF assms(1,2)]
    by (auto simp: ranked_arguments_def list_all_iff split: option.splits)
  then have "bindable rank (all_parameters env) (parameter_names a ! i) (Cursor (focus t) [])"
    using i assms(6) unfolding args t
    by (auto simp: list_all_length split: prod.splits)
  then show ?thesis using bindable_focus [of "Cursor (focus t) []" t] by simp
qed

subsection \<open>Ranked programs\<close>

definition ranked_alias :: "(string \<Rightarrow> nat) \<Rightarrow> type_alias_environment \<Rightarrow> cursor \<Rightarrow> bool" where
  "ranked_alias rank env a \<longleftrightarrow>
     ranked_arguments rank env (focus (child a ''typeAnnotation'')) \<and>
     list_all (\<lambda>p. null (child p ''default'') \<or>
         bindable rank (all_parameters env) (type_parameter_name p) (child p ''default'') \<and>
         ranked_arguments rank env (focus (child p ''default''))) (type_parameters a)"

definition ranked_program :: "(string \<Rightarrow> nat) \<Rightarrow> type_environment \<Rightarrow> bool" where
  "ranked_program rank env \<longleftrightarrow>
     env_ok (typeAliases env) \<and>
     list_all (ranked_alias rank (typeAliases env)) (aliases (typeAliases env))"

definition ranked_map :: "(string \<Rightarrow> nat) \<Rightarrow> type_alias_environment \<Rightarrow> type_map \<Rightarrow> bool" where
  "ranked_map rank env subs \<longleftrightarrow>
     (\<forall>(k, t) \<in> set subs. k \<in> set (all_parameters env) \<and>
        bindable rank (all_parameters env) k t \<and> ranked_arguments rank env (focus t))"

lemma ranked_map_Nil [simp]: "ranked_map rank env []"
  by (simp add: ranked_map_def)

definition ranked_state :: "(string \<Rightarrow> nat) \<Rightarrow> type_environment \<Rightarrow> type_state \<Rightarrow> bool" where
  "ranked_state rank env st \<longleftrightarrow>
     (case st of (c, subs, res) \<Rightarrow>
        ranked_program rank env \<and> ranked_arguments rank (typeAliases env) (focus c) \<and>
        ranked_map rank (typeAliases env) subs)"

text \<open>One more than the highest rank mentioned.\<close>

definition type_rank :: "(string \<Rightarrow> nat) \<Rightarrow> string list \<Rightarrow> node \<Rightarrow> nat" where
  "type_rank rank S n =
     foldr (\<lambda>name b. if name \<in> set S then max (Suc (rank name)) b else b) (mentioned n) 0"

lemma type_rank_le: "type_rank rank S n \<le> b \<longleftrightarrow> ranked_below rank S b n"
proof -
  have "foldr (\<lambda>name b. if name \<in> set S then max (Suc (rank name)) b else b) ns 0 \<le> b \<longleftrightarrow>
      list_all (\<lambda>name. name \<in> set S \<longrightarrow> rank name < b) ns" for ns
    by (induction ns) auto
  then show ?thesis by (simp add: type_rank_def ranked_below_def)
qed

lemma type_rank_below: "below d c \<Longrightarrow> type_rank rank S (focus d) \<le> type_rank rank S (focus c)"
  using ranked_below_below by (simp add: type_rank_le) (simp flip: type_rank_le)

definition type_order :: "(string \<Rightarrow> nat) \<Rightarrow> type_environment \<Rightarrow> (type_state \<times> type_state) set" where
  "type_order rank env =
     measures
       [\<lambda>(c, subs, res). card (alias_name ` set (aliases (typeAliases env)) - set res),
        \<lambda>(c, subs, res). type_rank rank (all_parameters (typeAliases env)) (focus c),
        \<lambda>(c, subs, res). size (focus c)]"

lemma wf_type_order: "wf (type_order rank env)"
  by (simp add: type_order_def)

text \<open>The steps the classifiers take between types.\<close>

inductive type_step :: "type_environment \<Rightarrow> type_state \<Rightarrow> type_state \<Rightarrow> bool"
  for env :: type_environment
where
  step_member: "d \<in> set (elems (unwrapTransparentType c) ''types'') \<Longrightarrow>
    type_step env (c, subs, res) (d, subs, res)"
| step_argument: "kind (unwrapTransparentType c) = ''TSTypeReference'' \<Longrightarrow>
    d \<in> set (type_arguments (unwrapTransparentType c)) \<Longrightarrow>
    type_step env (c, subs, res) (d, subs, res)"
| step_substitution: "kind (unwrapTransparentType c) = ''TSTypeReference'' \<Longrightarrow>
    typeReferenceName (unwrapTransparentType c) = Some name \<Longrightarrow> map_of subs name = Some s \<Longrightarrow>
    \<not> isUnappliedReferenceTo s name \<Longrightarrow> type_step env (c, subs, res) (s, subs, res)"
| step_alias: "kind (unwrapTransparentType c) = ''TSTypeReference'' \<Longrightarrow>
    typeReferenceName (unwrapTransparentType c) = Some name \<Longrightarrow>
    visibleTypeAlias name (unwrapTransparentType c) (typeAliases env) = Some a \<Longrightarrow>
    name \<notin> set res \<Longrightarrow>
    subs' = subs \<or> aliasSubstitution a (unwrapTransparentType c) subs = Some subs' \<Longrightarrow>
    type_step env (c, subs, res) (child a ''typeAnnotation'', subs', name # res)"

lemma unapplied_reference:
  "isUnappliedReferenceTo t k \<Longrightarrow> kind (unwrapTransparentType t) = ''TSTypeReference'' \<and>
     typeReferenceName (unwrapTransparentType t) = Some k"
  by (simp add: isUnappliedReferenceTo_def Let_def)

lemma bindable_at_most:
  "bindable rank S k t \<Longrightarrow> ranked_below rank S (Suc (rank k)) (focus t)"
  by (auto simp: bindable_def elim: ranked_below_mono)

lemma resolved_cases:
  obtains "resolvedSubstitutionArgument t base res = t"
    | name s where "kind (unwrapTransparentType t) = ''TSTypeReference''"
      "typeReferenceName (unwrapTransparentType t) = Some name"
      "name \<notin> set res" "map_of base name = Some s"
      "resolvedSubstitutionArgument t base res = resolvedSubstitutionArgument s base (name # res)"
proof (cases "\<exists>name s. kind (unwrapTransparentType t) = ''TSTypeReference'' \<and>
    typeReferenceName (unwrapTransparentType t) = Some name \<and> name \<notin> set res \<and> map_of base name = Some s")
  case True
  then obtain name s where ns: "kind (unwrapTransparentType t) = ''TSTypeReference''"
    "typeReferenceName (unwrapTransparentType t) = Some name" "name \<notin> set res" "map_of base name = Some s"
    by blast
  then have "resolvedSubstitutionArgument t base res = resolvedSubstitutionArgument s base (name # res)"
    by (simp add: resolvedSubstitutionArgument.simps [of t base res] Let_def)
  with ns show thesis by (rule that(2))
next
  case False
  then have "resolvedSubstitutionArgument t base res = t"
    by (auto simp: resolvedSubstitutionArgument.simps [of t base res] Let_def split: option.split)
  then show thesis by (rule that(1))
qed

lemma resolved_ranked:
  assumes "ranked_map rank env base" and "ranked_arguments rank env (focus t)"
  shows "ranked_arguments rank env (focus (resolvedSubstitutionArgument t base res))"
    and "ranked_below rank (all_parameters env) b (focus t) \<Longrightarrow>
      ranked_below rank (all_parameters env) b (focus (resolvedSubstitutionArgument t base res))"
  using assms
proof (induction t base res arbitrary: b rule: resolvedSubstitutionArgument.induct)
  case (1 t base res)
  let ?u = "unwrapTransparentType t"
  { case 1
    show ?case
    proof (cases rule: resolved_cases [where t = t and base = base and res = res])
      case (2 name s)
      then have "ranked_arguments rank env (focus s)"
        using 1(1) by (auto simp: ranked_map_def dest!: map_of_SomeD)
      with 2 show ?thesis using "1.IH"(1) [OF refl _ 2(2,3,4)] 1(1) by simp
    qed (use 1 in simp) }
  { case 2
    show ?case
    proof (cases rule: resolved_cases [where t = t and base = base and res = res])
      case name: (2 name s)
      then have s: "name \<in> set (all_parameters env)" "bindable rank (all_parameters env) name s"
        "ranked_arguments rank env (focus s)"
        using 2(2) by (auto simp: ranked_map_def dest!: map_of_SomeD)
      have "rank name < b"
        using 2(1) s(1) reference_mentioned [OF name(1,2)] by (auto simp: ranked_below_def list_all_iff)
      then have "ranked_below rank (all_parameters env) b (focus s)"
        using ranked_below_mono [OF bindable_at_most [OF s(2)]] by simp
      with name s(3) show ?thesis using "1.IH"(2) [OF refl _ name(2,3,4)] 2(2) by simp
    qed (use 2 in simp) }
qed

lemma resolved_bindable:
  assumes "ranked_map rank env base" and "ranked_arguments rank env (focus t)"
    and "bindable rank (all_parameters env) k t"
  shows "bindable rank (all_parameters env) k (resolvedSubstitutionArgument t base [])"
proof (cases "ranked_below rank (all_parameters env) (rank k) (focus t)")
  case True
  then show ?thesis using resolved_ranked(2) [OF assms(1,2)] by (simp add: bindable_def)
next
  case False
  then have bare: "isUnappliedReferenceTo t k" using assms(3) by (simp add: bindable_def)
  note t = unapplied_reference [OF bare]
  show ?thesis
  proof (cases "map_of base k")
    case None
    then show ?thesis
      using assms(3) t by (simp add: resolvedSubstitutionArgument.simps [of t] Let_def)
  next
    case (Some s)
    then have s: "bindable rank (all_parameters env) k s" "ranked_arguments rank env (focus s)"
      using assms(1) by (auto simp: ranked_map_def dest!: map_of_SomeD)
    have eq: "resolvedSubstitutionArgument t base [] = resolvedSubstitutionArgument s base [k]"
      using Some t by (simp add: resolvedSubstitutionArgument.simps [of t] Let_def)
    show ?thesis
    proof (cases "ranked_below rank (all_parameters env) (rank k) (focus s)")
      case True
      then show ?thesis
        unfolding eq using resolved_ranked(2) [OF assms(1) s(2)] by (simp add: bindable_def)
    next
      case False
      then have "isUnappliedReferenceTo s k" using s(1) by (simp add: bindable_def)
      from unapplied_reference [OF this] have "resolvedSubstitutionArgument s base [k] = s"
        by (simp add: resolvedSubstitutionArgument.simps [of s] Let_def)
      with s(1) show ?thesis unfolding eq by simp
    qed
  qed
qed

lemma bind_arguments_ranked:
  assumes "bind_arguments ps i args m = Some m'"
    and "\<forall>p \<in> set ps. type_parameter_name p \<in> set (all_parameters env) \<and>
      (null (child p ''default'') \<or>
       bindable rank (all_parameters env) (type_parameter_name p) (child p ''default'') \<and>
       ranked_arguments rank env (focus (child p ''default'')))"
    and "\<forall>j t. j < length ps \<longrightarrow> at_index args (i + j) = Some t \<longrightarrow>
      bindable rank (all_parameters env) (type_parameter_name (ps ! j)) t \<and>
      ranked_arguments rank env (focus t)"
    and "ranked_map rank env m"
  shows "ranked_map rank env m'"
  using assms
proof (induction ps i args m rule: bind_arguments.induct)
  case (2 p ps i args m)
  from "2.prems"(1) obtain a where
    a: "(case at_index args i of Some a \<Rightarrow> Some a | None \<Rightarrow> opt_child p ''default'') = Some a"
      "bind_arguments ps (i + 1) args
         ((type_parameter_name p, resolvedSubstitutionArgument a m []) # m) = Some m'"
    by (auto split: option.splits)
  have ok: "bindable rank (all_parameters env) (type_parameter_name p) a \<and>
      ranked_arguments rank env (focus a)"
    using a(1) "2.prems"(2) "2.prems"(3) [rule_format, of 0]
    by (auto simp: opt_child_def split: option.splits if_splits)
  then have "ranked_map rank env ((type_parameter_name p, resolvedSubstitutionArgument a m []) # m)"
    using "2.prems"(2,4) resolved_bindable [OF "2.prems"(4)] resolved_ranked(1) [OF "2.prems"(4)]
    by (simp add: ranked_map_def)
  moreover have "\<forall>j t. j < length ps \<longrightarrow> at_index args (i + 1 + j) = Some t \<longrightarrow>
      bindable rank (all_parameters env) (type_parameter_name (ps ! j)) t \<and>
      ranked_arguments rank env (focus t)"
    using "2.prems"(3) [rule_format, of "Suc j" for j] by auto
  ultimately show ?case using "2.prems"(2) a by (intro "2.IH" [OF a(1) a(2)]) auto
qed simp

lemma alias_step_ranked:
  assumes "ranked_program rank env" and "ranked_map rank (typeAliases env) subs"
    and "ranked_arguments rank (typeAliases env) (focus u)"
    and "kind u = ''TSTypeReference''" and "typeReferenceName u = Some name"
    and "visibleTypeAlias name u (typeAliases env) = Some a"
    and "aliasSubstitution a u subs = Some subs'"
  shows "ranked_map rank (typeAliases env) subs'"
proof -
  let ?env = "typeAliases env"
  have ok: "env_ok ?env" using assms(1) by (simp add: ranked_program_def)
  note a = visible_alias_in_env [OF ok assms(6)]
  then have al: "ranked_alias rank ?env a"
    using assms(1) by (auto simp: ranked_program_def list_all_iff)
  have "bindable rank (all_parameters ?env) (type_parameter_name (type_parameters a ! j)) t \<and>
      ranked_arguments rank ?env (focus t)"
    if "j < length (type_parameters a)" and "at_index (type_arguments u) j = Some t" for j t
    using ranked_reference_arguments [OF assms(4,5) a(1) _ assms(3), of j t] that a(2)
      ranked_arguments_below [OF below_argument [OF that(2)] assms(3)]
    by (simp add: alias_name_def parameter_names_def)
  moreover have "type_parameter_name p \<in> set (all_parameters ?env)" if "p \<in> set (type_parameters a)" for p
    using that a(1) by (auto simp: all_parameters_def parameter_names_def)
  ultimately show ?thesis
    using al
    by (intro bind_arguments_ranked [OF assms(7) [unfolded aliasSubstitution_def] _ _ assms(2)])
      (simp_all add: ranked_alias_def list_all_iff)
qed

lemma type_step_ranked:
  assumes "type_step env st st'" and "ranked_state rank env st"
  shows "ranked_state rank env st'"
  using assms
proof (induction rule: type_step.induct)
  case (step_member d c subs res)
  then have "below d c"
    unfolding unwrapTransparentType_def by (blast intro: below_trans below_elems below_unwrap)
  with step_member show ?case
    using ranked_arguments_below by (auto simp: ranked_state_def)
next
  case (step_argument c d subs res)
  then have "below d c"
    unfolding unwrapTransparentType_def by (blast intro: below_trans below_type_arguments below_unwrap)
  with step_argument show ?case
    using ranked_arguments_below by (auto simp: ranked_state_def)
next
  case (step_substitution c name subs s res)
  then show ?case by (auto simp: ranked_state_def ranked_map_def dest!: map_of_SomeD)
next
  case (step_alias c name a res subs' subs)
  let ?u = "unwrapTransparentType c"
  have prog: "ranked_program rank env" and c: "ranked_arguments rank (typeAliases env) (focus c)"
    and subs: "ranked_map rank (typeAliases env) subs"
    using step_alias.prems by (auto simp: ranked_state_def)
  then have "a \<in> set (aliases (typeAliases env))"
    using visible_alias_in_env(1) step_alias.hyps(3) by (auto simp: ranked_program_def)
  with prog have "ranked_alias rank (typeAliases env) a" by (auto simp: ranked_program_def list_all_iff)
  moreover have "ranked_arguments rank (typeAliases env) (focus ?u)"
    using c ranked_arguments_below below_unwrap unfolding unwrapTransparentType_def by blast
  then have "ranked_map rank (typeAliases env) subs'"
    using step_alias.hyps subs alias_step_ranked [OF prog subs] by blast
  ultimately show ?case using prog by (simp add: ranked_state_def ranked_alias_def)
qed

lemma smaller_in_order:
  assumes "below d c" and "size (focus d) < size (focus c)"
  shows "((d, subs, res), (c, subs', res)) \<in> type_order rank env"
  using assms type_rank_below [OF assms(1), of rank "all_parameters (typeAliases env)"]
  by (auto simp: type_order_def)

lemma type_step_less:
  assumes "type_step env st st'" and "ranked_state rank env st"
  shows "(st', st) \<in> type_order rank env"
  using assms
proof (induction rule: type_step.induct)
  case (step_member d c subs res)
  then show ?case
    using size_elems [OF step_member(1)] size_unwrap_while [of transparent_node "''typeAnnotation''" c]
    unfolding unwrapTransparentType_def
    by (intro smaller_in_order) (auto intro: below_trans below_elems below_unwrap)
next
  case (step_argument c d subs res)
  then show ?case
    using type_arguments_smaller [OF step_argument(1,2)]
      size_unwrap_while [of transparent_node "''typeAnnotation''" c]
    unfolding unwrapTransparentType_def
    by (intro smaller_in_order) (auto intro: below_trans below_type_arguments below_unwrap)
next
  case (step_substitution c name subs s res)
  let ?S = "all_parameters (typeAliases env)"
  from step_substitution have "name \<in> set ?S" "bindable rank ?S name s"
    by (auto simp: ranked_state_def ranked_map_def dest!: map_of_SomeD)
  with step_substitution(4) have "type_rank rank ?S (focus s) \<le> rank name"
    by (simp add: bindable_def type_rank_le)
  moreover have "\<not> ranked_below rank ?S (rank name) (focus c)"
    using reference_mentioned [OF step_substitution(1,2)] \<open>name \<in> set ?S\<close>
    by (auto simp: ranked_below_def list_all_iff)
  ultimately have "type_rank rank ?S (focus s) < type_rank rank ?S (focus c)"
    using type_rank_le [of rank ?S "focus c" "rank name"] by linarith
  then show ?case by (simp add: type_order_def)
next
  case (step_alias c name a res subs' subs)
  then have ok: "env_ok (typeAliases env)" by (simp add: ranked_state_def ranked_program_def)
  note a = visible_alias_in_env [OF ok step_alias.hyps(3)]
  have "card (alias_name ` set (aliases (typeAliases env)) - set (name # res))
      < card (alias_name ` set (aliases (typeAliases env)) - set res)"
    using a step_alias.hyps(4) by (intro psubset_card_mono) (auto simp: alias_name_def)
  then show ?case by (simp add: type_order_def)
qed

subsection \<open>The classifiers take these steps only\<close>

lemma alias_body_step:
  assumes "kind (unwrapTransparentType c) = ''TSTypeReference''"
    and "typeReferenceName (unwrapTransparentType c) = Some name"
    and "alias_body env (unwrapTransparentType c) name subs res = Some st"
  shows "type_step env (c, subs, res) st"
  using assms by (auto simp: alias_body_def split: option.splits if_splits intro: step_alias)

lemma wrapped_step:
  assumes "kind (unwrapTransparentType c) = ''TSTypeReference''"
    and "at_index (type_arguments (unwrapTransparentType c)) i = Some w"
  shows "type_step env (c, subs, res) (w, subs, res)"
  using assms by (intro step_argument) (auto dest: at_index_mem)

lemma unsafe_call_steps:
  "st' \<in> set (callees (unsafe_call env st)) \<Longrightarrow> type_step env st st'"
  by (cases st)
    (auto simp: unsafe_call_def unsafe_reference_def Let_def split: if_splits option.splits
      intro: step_member step_substitution alias_body_step wrapped_step)

lemma dictionary_call_steps:
  "st' \<in> set (callees (dictionary_call env st)) \<Longrightarrow> type_step env st st'"
  by (cases st)
    (auto simp: dictionary_call_def dictionary_reference_def Let_def split: if_splits option.splits
      intro: step_substitution alias_body_step wrapped_step)

lemma broad_key_call_steps:
  "st' \<in> set (callees (broad_key_call env st)) \<Longrightarrow> type_step env st st'"
  by (cases st)
    (auto simp: broad_key_call_def broad_key_reference_def broad_key_alias_def Let_def
      split: if_splits option.splits intro: step_member step_substitution step_alias)

lemma alias_target_call_steps:
  "st' \<in> set (callees (alias_target_call depth env st)) \<Longrightarrow> type_step env st st'"
  by (cases st)
    (auto simp: alias_target_call_def alias_target_reference_def Let_def
      split: if_splits option.splits intro: step_substitution alias_body_step wrapped_step)

interpretation unsafe: call_recursion "unsafe_call env" "ranked_state rank env" "type_order rank env"
  for rank :: "string \<Rightarrow> nat" and env :: type_environment
  by unfold_locales
    (auto intro: wf_type_order type_step_ranked type_step_less unsafe_call_steps)

interpretation dictionary: call_recursion "dictionary_call env" "ranked_state rank env" "type_order rank env"
  for rank :: "string \<Rightarrow> nat" and env :: type_environment
  by unfold_locales
    (auto intro: wf_type_order type_step_ranked type_step_less dictionary_call_steps)

interpretation broad_key: call_recursion "broad_key_call env" "ranked_state rank env" "type_order rank env"
  for rank :: "string \<Rightarrow> nat" and env :: type_environment
  by unfold_locales
    (auto intro: wf_type_order type_step_ranked type_step_less broad_key_call_steps)

interpretation alias_target: call_recursion
  "alias_target_call depth env" "ranked_state rank env" "type_order rank env"
  for depth :: nat and rank :: "string \<Rightarrow> nat" and env :: type_environment
  by unfold_locales
    (auto intro: wf_type_order type_step_ranked type_step_less alias_target_call_steps)

subsection \<open>Widening targets are classified on ranked programs\<close>

lemma alias_target_linear: "linear (alias_target_call depth env)"
  by (auto simp: linear_def alias_target_call_def alias_target_reference_def Let_def
      split: prod.split option.split)

lemma alias_target_tails: "tail_of (alias_target_call depth env st) = tail_of (alias_target_call 0 env st)"
  by (auto simp: alias_target_call_def alias_target_reference_def Let_def
      split: prod.split option.split)

lemma broad_key_converges:
  "ranked_state rank env (key, subs, []) \<Longrightarrow> converges (\<lambda>n. isBroadMappedKey n key env subs [])"
  unfolding isBroadMappedKey_def by (rule broad_key.calls_converge)

lemma ranked_state_below:
  assumes "ranked_state rank env (c, subs, res)" and "below d c"
  shows "ranked_state rank env (d, subs, [])"
  using assms ranked_arguments_below [OF assms(2)] by (simp add: ranked_state_def)

lemma record_key_converges:
  assumes "ranked_state rank env (c, subs, res)"
  shows "converges (\<lambda>n. hasBroadRecordKey n (unwrapTransparentType c) env subs)"
proof (cases "at_index (type_arguments (unwrapTransparentType c)) 0")
  case None
  then show ?thesis by (simp add: hasBroadRecordKey_def converges_def)
next
  case (Some key)
  then have "below key c"
    using below_argument below_unwrap below_trans unfolding unwrapTransparentType_def by blast
  with ranked_state_below [OF assms] have "converges (\<lambda>n. isBroadMappedKey n key env subs [])"
    by (blast intro: broad_key_converges)
  with Some show ?thesis by (simp add: hasBroadRecordKey_def)
qed

lemma alias_target_results:
  assumes "ranked_state rank env st"
  shows "\<exists>k. \<forall>d\<ge>k. result_of (alias_target_call d env st) \<noteq> Some None"
proof -
  obtain c subs res where st: "st = (c, subs, res)" by (cases st)
  let ?u = "unwrapTransparentType c"
  have "below (child ?u ''constraint'') c"
    unfolding unwrapTransparentType_def by (blast intro: below_trans below_child below_unwrap)
  then obtain n where n: "\<forall>m\<ge>n. isBroadMappedKey m (child ?u ''constraint'') env subs [] \<noteq> None"
    using broad_key_converges ranked_state_below assms unfolding st converges_def by blast
  obtain k where k: "\<forall>m\<ge>k. hasBroadRecordKey m ?u env subs \<noteq> None"
    using record_key_converges assms unfolding st converges_def by blast
  have "result_of (alias_target_call d env st) \<noteq> Some None" if "d \<ge> max n k" for d
    using n k that
    by (auto simp: st alias_target_call_def alias_target_reference_def open_if_def Let_def
        split: option.split)
  then show ?thesis by blast
qed

lemma alias_target_converges:
  assumes "ranked_state rank env (c, subs, res)"
  shows "converges (\<lambda>d. classifyAliasBroadTarget d c env subs res)"
  unfolding classifyAliasBroadTarget_def
proof (rule linear_family_converges [where I = "ranked_state rank env" and body = "\<lambda>d. alias_target_call d env"])
  show "converges (\<lambda>n. run_calls (alias_target_call 0 env) n (c, subs, res))"
    using assms by (rule alias_target.calls_converge)
  show "ranked_state rank env b" if "ranked_state rank env a" "tail_of (alias_target_call 0 env a) = Some b" for a b
    using that by (blast intro: alias_target.callee_inv callee_tail)
qed (use assms alias_target_linear alias_target_tails alias_target_results in auto)

lemma alias_reference_converges:
  assumes "ranked_state rank env (c, [], [])" and "kind (unwrapTransparentType c) = ''TSTypeReference''"
    and "typeReferenceName (unwrapTransparentType c) = Some name"
  shows "converges (\<lambda>d. classify_alias_reference d env (unwrapTransparentType c) name)"
proof (cases "visibleTypeAlias name (unwrapTransparentType c) (typeAliases env)")
  case None
  then show ?thesis by (simp add: classify_alias_reference_def converges_def)
next
  case (Some al)
  show ?thesis
  proof (cases "aliasSubstitution al (unwrapTransparentType c) []")
    case None
    with Some show ?thesis by (simp add: classify_alias_reference_def converges_def Let_def)
  next
    case subs: (Some subs)
    have "type_step env (c, [], []) (child al ''typeAnnotation'', subs, [name])"
      using step_alias [OF assms(2,3) Some, of "[]" subs "[]"] subs by simp
    then have "ranked_state rank env (child al ''typeAnnotation'', subs, [name])"
      using assms(1) by (rule type_step_ranked)
    then have "converges (\<lambda>d. classifyAliasBroadTarget d (child al ''typeAnnotation'') env subs [name])"
      by (rule alias_target_converges)
    with Some subs show ?thesis by (auto simp: classify_alias_reference_def converges_def Let_def)
  qed
qed

lemma open_if_converges: "converges F \<Longrightarrow> converges (\<lambda>n. open_if (F n))"
  by (simp add: converges_def open_if_def)

lemma widening_target_converges:
  assumes "ranked_state rank env (c, [], [])"
  shows "converges (\<lambda>d. classifyWideningTarget d c env)"
  using assms
proof (induction "size (focus c)" arbitrary: c rule: less_induct)
  case less
  let ?u = "unwrapTransparentType c"
  have const: "converges (\<lambda>d. classifyWideningTarget d c env)"
    if "\<And>d. classifyWideningTarget d c env = x" "x \<noteq> None" for x
    using that by (simp add: converges_def)
  show ?case
  proof (cases "kind ?u = ''TSTypeReference'' \<and> typeReferenceName ?u \<noteq> None")
    case False
    then have "\<exists>x. x \<noteq> None \<and> (\<forall>d. classifyWideningTarget d c env = x)"
      by (auto simp: classifyWideningTarget.simps [of _ c env] Let_def split: option.split)
    then show ?thesis using const by blast
  next
    case True
    then obtain name where name: "typeReferenceName ?u = Some name" by auto
    have eq: "classifyWideningTarget d c env =
        (if name \<in> set TRANSPARENT_WRAPPERS \<and> isBuiltIn name ?u env
         then (case at_index (type_arguments ?u) 0 of
                 None \<Rightarrow> Some None | Some wrapped \<Rightarrow> classifyWideningTarget d wrapped env)
         else if name = ''Record'' \<and> isBuiltIn name ?u env
         then open_if (hasBroadRecordKey d ?u env [])
         else classify_alias_reference d env ?u name)" for d
      using True name by (simp add: classifyWideningTarget.simps [of d c env] Let_def)
    have wrapped: "converges (\<lambda>d. classifyWideningTarget d w env)"
      if "at_index (type_arguments ?u) 0 = Some w" for w
    proof (rule less.hyps)
      show "size (focus w) < size (focus c)" using True that by (blast intro: wrapped_smaller)
      have "below w c"
        using that below_argument below_unwrap below_trans unfolding unwrapTransparentType_def by blast
      then show "ranked_state rank env (w, [], [])" by (rule ranked_state_below [OF less.prems])
    qed
    show ?thesis
    proof (cases "name \<in> set TRANSPARENT_WRAPPERS \<and> isBuiltIn name ?u env")
      case True
      then show ?thesis
        unfolding eq using wrapped
        by (cases "at_index (type_arguments ?u) 0") (simp_all add: converges_def)
    next
      case False
      then have "(\<lambda>d. classifyWideningTarget d c env) =
          (if name = ''Record'' \<and> isBuiltIn name ?u env
           then (\<lambda>d. open_if (hasBroadRecordKey d ?u env []))
           else (\<lambda>d. classify_alias_reference d env ?u name))"
        by (auto simp: eq fun_eq_iff)
      moreover have "converges (\<lambda>d. open_if (hasBroadRecordKey d ?u env []))"
        by (rule open_if_converges [OF record_key_converges [OF less.prems]])
      moreover have "converges (\<lambda>d. classify_alias_reference d env ?u name)"
        using True by (intro alias_reference_converges [OF less.prems _ name]) blast
      ultimately show ?thesis by (simp split: if_splits)
    qed
  qed
qed

subsection \<open>Whole programs\<close>

definition ranked_source :: "(string \<Rightarrow> nat) \<Rightarrow> cursor \<Rightarrow> type_environment \<Rightarrow> bool" where
  "ranked_source rank p env \<longleftrightarrow>
     ranked_program rank env \<and> ranked_arguments rank (typeAliases env) (focus p)"

lemma create_environment_ok: "env_ok (typeAliases (fst (createTypeEnvironment p vk (\<lambda>_. None))))"
  using create_cached(1) [OF cache_ok_empty, of p vk]
  by (simp add: createTypeEnvironment_def case_prod_beta env_ok_compute)

end
