(* ===== verification/Unsafe_Dictionary.thy ===== *)
theory Unsafe_Dictionary
  imports Dictionary_Termination
begin

text \<open>
  The rule \<^verbatim>\<open>no-unsafe-dictionary-type\<close>: a dictionary type whose value is an escape hatch is
  reported once, at its outermost type node.
\<close>

definition typeNodeKinds :: "string list" where
  "typeNodeKinds =
     [''JSDocNonNullableType'', ''JSDocNullableType'', ''JSDocUnknownType'', ''TSAnyKeyword'',
      ''TSArrayType'', ''TSBigIntKeyword'', ''TSBooleanKeyword'', ''TSConditionalType'',
      ''TSConstructorType'', ''TSFunctionType'', ''TSImportType'', ''TSIndexedAccessType'',
      ''TSInferType'', ''TSIntersectionType'', ''TSIntrinsicKeyword'', ''TSLiteralType'',
      ''TSMappedType'', ''TSNamedTupleMember'', ''TSNeverKeyword'', ''TSNullKeyword'',
      ''TSNumberKeyword'', ''TSObjectKeyword'', ''TSParenthesizedType'', ''TSStringKeyword'',
      ''TSSymbolKeyword'', ''TSTemplateLiteralType'', ''TSThisType'', ''TSTupleType'',
      ''TSTypeLiteral'', ''TSTypeOperator'', ''TSTypePredicate'', ''TSTypeQuery'',
      ''TSTypeReference'', ''TSUndefinedKeyword'', ''TSUnionType'', ''TSUnknownKeyword'',
      ''TSVoidKeyword'']"

definition isTypeNode :: "cursor \<Rightarrow> bool" where
  "isTypeNode node \<longleftrightarrow> kind node \<in> set typeNodeKinds"

definition isInsideTypeAliasDeclaration :: "cursor \<Rightarrow> bool" where
  "isInsideTypeAliasDeclaration node \<longleftrightarrow>
     list_ex (\<lambda>c. kind c = ''TSTypeAliasDeclaration'') (below_program (ancestors node))"

definition isPlainAliasConsumerUse :: "cursor \<Rightarrow> type_environment \<Rightarrow> bool" where
  "isPlainAliasConsumerUse node env =
     (if kind node \<noteq> ''TSTypeReference'' \<or> type_arguments node \<noteq> [] then False
      else case typeReferenceName node of
             None \<Rightarrow> False
           | Some name \<Rightarrow>
               visibleTypeAlias name node (typeAliases env) \<noteq> None \<and>
               \<not> isInsideTypeAliasDeclaration node)"

fun constraint_walk :: "cursor \<Rightarrow> cursor list \<Rightarrow> bool" where
  "constraint_walk c [] = False"
| "constraint_walk c (p # rest) =
     (if kind p = ''Program'' then False
      else if kind p = ''TSTypeParameter'' \<and> child p ''constraint'' = c then True
      else constraint_walk p rest)"

definition isInsideTypeParameterConstraint :: "cursor \<Rightarrow> bool" where
  "isInsideTypeParameterConstraint node = constraint_walk node (ancestors node)"

definition unsafe_type_above :: "nat \<Rightarrow> type_environment \<Rightarrow> cursor \<Rightarrow> bool option" where
  "unsafe_type_above depth env current =
     (if isTypeNode current
      then map_option (\<lambda>r. r \<noteq> None) (classifyUnsafeDictionary depth current env)
      else Some False)"

definition shouldReportType :: "nat \<Rightarrow> cursor \<Rightarrow> type_environment \<Rightarrow> bool option" where
  "shouldReportType depth node env =
     (if isInsideTypeParameterConstraint node then Some False
      else if isPlainAliasConsumerUse node env then Some False
      else case classifyUnsafeDictionary depth node env of
             None \<Rightarrow> None
           | Some None \<Rightarrow> Some False
           | Some (Some v) \<Rightarrow>
               map_option Not
                 (some_opt (unsafe_type_above depth env) (below_program (ancestors node))))"

fun unsafe_value_name :: "unsafe_value \<Rightarrow> string" where
  "unsafe_value_name UAny = ''any''"
| "unsafe_value_name UEmptyObject = ''empty-object''"
| "unsafe_value_name UObject = ''object''"
| "unsafe_value_name UUnion = ''union''"
| "unsafe_value_name UUnknown = ''unknown''"

definition unsafe_report :: "cursor \<Rightarrow> unsafe_value \<Rightarrow> report" where
  "unsafe_report node v =
     \<lparr>rnode = node, messageId = ''unsafeDictionary'', rdata = [(''value'', unsafe_value_name v)]\<rparr>"

definition reportIfUnsafe :: "nat \<Rightarrow> type_environment option \<Rightarrow> cursor \<Rightarrow> report list option" where
  "reportIfUnsafe depth environment node =
     (case environment of
        None \<Rightarrow> Some []
      | Some env \<Rightarrow>
          (case shouldReportType depth node env of
             None \<Rightarrow> None
           | Some False \<Rightarrow> Some []
           | Some True \<Rightarrow>
               map_option (\<lambda>r. case r of None \<Rightarrow> [] | Some v \<Rightarrow> [unsafe_report node v])
                 (classifyUnsafeDictionary depth node env)))"

definition reportIndexSignature :: "nat \<Rightarrow> type_environment option \<Rightarrow> cursor \<Rightarrow> report list option" where
  "reportIndexSignature depth environment node =
     (case environment of
        None \<Rightarrow> Some []
      | Some env \<Rightarrow>
          if null (child node ''typeAnnotation'') \<or> kind_is (parent node) ''TSTypeLiteral''
          then Some []
          else map_option (\<lambda>r. case r of None \<Rightarrow> [] | Some v \<Rightarrow> [unsafe_report node v])
                 (classifyUnsafeDictionaryValue depth
                    (child (child node ''typeAnnotation'') ''typeAnnotation'') env))"

record dictionary_rule_state =
  dr_environment :: "type_environment option"
  dr_cache :: environment_cache

definition noUnsafeDictionaryTypeRule :: "nat \<Rightarrow> dictionary_rule_state listener" where
  "noUnsafeDictionaryTypeRule depth sc node st =
     (if kind node = ''Program''
      then let (env, cache) = createTypeEnvironment node (sc_visitorKeys sc) (dr_cache st)
           in Some (\<lparr>dr_environment = Some env, dr_cache = cache\<rparr>, [])
      else if kind node \<in> {''TSTypeReference'', ''TSTypeLiteral'', ''TSMappedType''}
      then map_option (Pair st) (reportIfUnsafe depth (dr_environment st) node)
      else if kind node = ''TSIndexSignature''
      then map_option (Pair st) (reportIndexSignature depth (dr_environment st) node)
      else Some (st, []))"

subsection \<open>The classifiers return on ranked programs\<close>

lemma dictionary_values_ranked:
  assumes "run_calls (dictionary_call env) n st = Some vs" and "ranked_state rank env st"
    and "(t, subs) \<in> set vs"
  shows "ranked_state rank env (t, subs, [])"
  using assms
proof (induction n arbitrary: st)
  case (Suc n)
  obtain c subs0 res where st: "st = (c, subs0, res)" by (cases st)
  have below_u: "below d (unwrapTransparentType c) \<Longrightarrow> ranked_state rank env (d, subs0, [])" for d
    using Suc.prems(2) st ranked_arguments_below [OF below_trans [OF _ below_unwrap]]
    unfolding ranked_state_def unwrapTransparentType_def by fastforce
  show ?case
  proof (cases "dictionary_call env st")
    case (Done vs')
    with Suc.prems have "(t, subs) \<in> set vs'" by simp
    with Done have "subs = subs0 \<and> below t (unwrapTransparentType c)"
      by (auto simp: st dictionary_call_def dictionary_reference_def Let_def opt_child_def
          split: if_splits option.splits 
          intro: below_trans [OF below_child] below_child below_trans [OF below_child below_elems]
            below_trans [OF below_child below_trans [OF below_child below_elems]] below_argument)
    with below_u show ?thesis by simp
  next
    case (Tail st')
    with Suc.prems have "run_calls (dictionary_call env) n st' = Some vs" by simp
    moreover have "ranked_state rank env st'"
      using Tail Suc.prems(2) by (intro dictionary.callee_inv [of rank env st st']) simp_all
    ultimately show ?thesis using Suc.IH Suc.prems(3) by blast
  qed (auto simp: st dictionary_call_def dictionary_reference_def Let_def split: if_splits option.splits)
qed simp

lemma first_unsafe_stable: "stable (\<lambda>n. first_unsafe n env vs)"
proof -
  have "first_unsafe n env vs = Some r \<Longrightarrow> first_unsafe (Suc n) env vs = Some r" for n r
  proof (induction vs)
    case (Cons v vs)
    obtain t subs where v: "v = (t, subs)" by (cases v)
    with Cons.prems obtain x where x: "unsafeDirectValue n t env subs [] = Some x"
      by (auto split: option.splits)
    then have "unsafeDirectValue (Suc n) t env subs [] = Some x"
      unfolding unsafeDirectValue_def by (rule run_calls_Suc)
    with Cons v x show ?case by (cases x) auto
  qed simp
  then show ?thesis by (simp add: stable_def)
qed

lemma classify_stable: "stable (\<lambda>n. classifyUnsafeDictionary n c env)"
proof -
  have "classifyUnsafeDictionary n c env = Some r \<Longrightarrow> classifyUnsafeDictionary (Suc n) c env = Some r" for n r
  proof -
    assume r: "classifyUnsafeDictionary n c env = Some r"
    then obtain vs where vs: "dictionaryValueTypes n c env [] [] = Some vs"
      "first_unsafe n env vs = Some r"
      by (auto simp: classifyUnsafeDictionary_def split: option.splits)
    have "dictionaryValueTypes (Suc n) c env [] [] = Some vs"
      using vs(1) unfolding dictionaryValueTypes_def by (rule run_calls_Suc)
    moreover have "first_unsafe (Suc n) env vs = Some r"
      using first_unsafe_stable vs(2) unfolding stable_def by blast
    ultimately show ?thesis by (simp add: classifyUnsafeDictionary_def)
  qed
  then show ?thesis by (simp add: stable_def)
qed

lemma first_unsafe_converges:
  assumes "\<And>t subs. (t, subs) \<in> set vs \<Longrightarrow> ranked_state rank env (t, subs, [])"
  shows "\<exists>n. first_unsafe n env vs \<noteq> None"
proof -
  let ?F = "\<lambda>v n. unsafeDirectValue n (fst v) env (snd v) []"
  have "converges (?F v)" if "v \<in> set vs" for v
    using unsafe.calls_converge [of rank env "(fst v, snd v, [])"] assms [of "fst v" "snd v"] that
    by (simp add: unsafeDirectValue_def)
  then obtain n where "\<forall>m\<ge>n. \<forall>v\<in>set vs. ?F v m \<noteq> None"
    using converges_finite [of "set vs" ?F] by auto
  then have "\<forall>v\<in>set vs. ?F v n \<noteq> None" by blast
  then have "first_unsafe n env vs \<noteq> None"
    by (induction vs) (auto split: option.splits)
  then show ?thesis by blast
qed

lemma classify_converges:
  assumes "ranked_program rank env"
    and "ranked_arguments rank (typeAliases env) (focus c)"
  shows "converges (\<lambda>n. classifyUnsafeDictionary n c env)"
proof -
  have st: "ranked_state rank env (c, [], [])" using assms by (simp add: ranked_state_def)
  then obtain n vs where vs: "\<forall>m\<ge>n. dictionaryValueTypes m c env [] [] = Some vs"
    using dictionary.calls_converge [OF st] stable_ge [OF run_calls_stable [of "dictionary_call env" "(c, [], [])"]]
    unfolding converges_def dictionaryValueTypes_def by (metis not_None_eq order_refl)
  then have "\<exists>k. first_unsafe k env vs \<noteq> None"
    using dictionary_values_ranked [OF _ st] unfolding dictionaryValueTypes_def
    by (intro first_unsafe_converges) blast
  then obtain k where "first_unsafe k env vs \<noteq> None" ..
  then have "first_unsafe (max n k) env vs \<noteq> None"
    using stable_ge [OF first_unsafe_stable] by (metis max.cobounded2 not_None_eq)
  with vs have "classifyUnsafeDictionary (max n k) c env \<noteq> None"
    by (simp add: classifyUnsafeDictionary_def)
  then show ?thesis by (rule stable_convergesI [OF classify_stable])
qed

subsection \<open>Reports are never nested\<close>

lemma should_report_outermost:
  assumes "shouldReportType depth c env = Some True"
    and "a \<in> set (below_program (ancestors c))" and "isTypeNode a"
  shows "classifyUnsafeDictionary depth a env = Some None"
proof -
  from assms(1) have
    "some_opt (unsafe_type_above depth env) (below_program (ancestors c)) = Some False"
    by (auto simp: shouldReportType_def split: if_splits option.splits)
  then have "unsafe_type_above depth env a = Some False"
    using assms(2) by (rule some_opt_FalseD)
  with assms(3) show ?thesis by (auto simp: unsafe_type_above_def)
qed

subsection \<open>Parentheses\<close>

lemma parenthesised_report:
  assumes "kind p = ''TSParenthesizedType''"
    and "reportIfUnsafe depth (Some env) (child p ''typeAnnotation'') = Some rs"
  shows "rs = []"
proof (rule ccontr)
  let ?c = "child p ''typeAnnotation''"
  assume "rs \<noteq> []"
  with assms(2) have rep: "shouldReportType depth ?c env = Some True"
    by (auto simp: reportIfUnsafe_def split: option.splits bool.splits)
  have "p \<in> set (below_program (ancestors ?c))" "isTypeNode p"
    using assms(1) by (simp_all add: isTypeNode_def typeNodeKinds_def)
  then have "classifyUnsafeDictionary depth p env = Some None"
    using rep by (intro should_report_outermost)
  moreover have "unwrapTransparentType p = unwrapTransparentType ?c"
    unfolding unwrapTransparentType_def
    using assms(1) by (intro unwrap_while_step) (auto simp: transparent_node_def kind_not_absent)
  then have "dictionaryValueTypes depth p env [] [] = dictionaryValueTypes depth ?c env [] []"
    by (cases depth) (simp_all add: dictionaryValueTypes_def dictionary_call_def)
  then have "classifyUnsafeDictionary depth p env = classifyUnsafeDictionary depth ?c env"
    by (simp add: classifyUnsafeDictionary_def)
  ultimately show False
    using rep by (auto simp: shouldReportType_def split: if_splits)
qed

subsection \<open>The rule returns on ranked programs\<close>

lemma should_report_converges:
  assumes "ranked_source rank p env" and "valid c" and "root c = focus p"
  shows "converges (\<lambda>n. shouldReportType n c env)"
proof -
  have conv: "converges (\<lambda>n. classifyUnsafeDictionary n a env)" if "a \<in> set (c # ancestors c)" for a
    using assms(1) ranked_arguments_below [OF valid_below_program [OF assms(2,3) that]]
    unfolding ranked_source_def by (blast intro: classify_converges)
  then obtain n where n: "\<forall>m\<ge>n. \<forall>a\<in>set (c # ancestors c). classifyUnsafeDictionary m a env \<noteq> None"
    using converges_finite [of "set (c # ancestors c)" "\<lambda>a n. classifyUnsafeDictionary n a env"]
    by blast
  have "shouldReportType m c env \<noteq> None" if "m \<ge> n" for m
  proof -
    have "some_opt (unsafe_type_above m env) (below_program (ancestors c)) \<noteq> None"
      using n that below_program_subset [of "ancestors c"]
      by (intro some_opt_total) (auto simp: unsafe_type_above_def)
    with n that show ?thesis by (auto simp: shouldReportType_def split: option.split)
  qed
  then show ?thesis unfolding converges_def by blast
qed

lemma report_converges:
  assumes "ranked_source rank p env" and "valid c" and "root c = focus p"
  shows "converges (\<lambda>n. reportIfUnsafe n (Some env) c)"
    and "converges (\<lambda>n. reportIndexSignature n (Some env) c)"
proof -
  have below: "below c p" using valid_below_program [OF assms(2,3)] by simp
  have closed: "ranked_state rank env (d, [], [])" if "below d c" for d
    using assms(1) ranked_arguments_below [OF below_trans [OF that below]]
    by (simp add: ranked_source_def ranked_state_def)
  obtain n where n: "\<forall>m\<ge>n. shouldReportType m c env \<noteq> None"
    using should_report_converges [OF assms] unfolding converges_def by blast
  obtain k where k: "\<forall>m\<ge>k. classifyUnsafeDictionary m c env \<noteq> None"
    using closed [of c] classify_converges [of rank env c] unfolding converges_def
    by (auto simp: ranked_state_def)
  have "reportIfUnsafe m (Some env) c \<noteq> None" if "m \<ge> max n k" for m
    using n k that by (auto simp: reportIfUnsafe_def split: option.split bool.split)
  then show "converges (\<lambda>n. reportIfUnsafe n (Some env) c)" unfolding converges_def by blast
  have "below (child (child c ''typeAnnotation'') ''typeAnnotation'') c"
    by (blast intro: below_trans below_child)
  then obtain k where k: "\<forall>m\<ge>k. classifyUnsafeDictionaryValue m
      (child (child c ''typeAnnotation'') ''typeAnnotation'') env \<noteq> None"
    using unsafe.calls_converge [OF closed] unfolding converges_def
      classifyUnsafeDictionaryValue_def unsafeDirectValue_def by blast
  then have "reportIndexSignature m (Some env) c \<noteq> None" if "m \<ge> k" for m
    using that by (auto simp: reportIndexSignature_def)
  then show "converges (\<lambda>n. reportIndexSignature n (Some env) c)" unfolding converges_def by blast
qed

definition fresh_dictionary_state :: dictionary_rule_state where
  "fresh_dictionary_state = \<lparr>dr_environment = None, dr_cache = \<lambda>_. None\<rparr>"

text \<open>
  \<^verbatim>\<open>type Box<T> = Record<string, T>; type Wrapped = (Record<string, unknown>);\<close>
  \<^verbatim>\<open>type Nested = Record<string, Box<unknown>>\<close>.
\<close>

definition nested_example :: cursor where
  "nested_example = Cursor (program_node
     [type_alias_decl ''Box'' [''T'']
        (type_ref ''Record'' [nd ''TSStringKeyword'' [], type_ref ''T'' []]),
      type_alias_decl ''Wrapped'' []
        (nd ''TSParenthesizedType'' [(''typeAnnotation'', Child
          (type_ref ''Record'' [nd ''TSStringKeyword'' [], nd ''TSUnknownKeyword'' []]))]),
      type_alias_decl ''Nested'' []
        (type_ref ''Record'' [nd ''TSStringKeyword'' [],
          type_ref ''Box'' [nd ''TSUnknownKeyword'' []]])]) []"

text \<open>
  \<^verbatim>\<open>type Box<T> = Record<string, T>; type MaybeBox<U> = Box<U | null>; type Same<T> = Box<T>\<close>
\<close>

definition ranked_example :: cursor where
  "ranked_example = Cursor (program_node
     [type_alias_decl ''Box'' [''T'']
        (type_ref ''Record'' [nd ''TSStringKeyword'' [], type_ref ''T'' []]),
      type_alias_decl ''MaybeBox'' [''U'']
        (type_ref ''Box'' [union_type [type_ref ''U'' [], nd ''TSNullKeyword'' []]]),
      type_alias_decl ''Same'' [''T''] (type_ref ''Box'' [type_ref ''T'' []])]) []"

definition ranked_example_env :: type_environment where
  "ranked_example_env = fst (createTypeEnvironment ranked_example example_keys (\<lambda>_. None))"

definition example_rank :: "string \<Rightarrow> nat" where
  "example_rank name = (if name = ''T'' then 1 else 0)"

definition nested_example_env :: type_environment where
  "nested_example_env = fst (createTypeEnvironment nested_example example_keys (\<lambda>_. None))"

definition wrapped_dictionary :: cursor where
  "wrapped_dictionary = child (elems nested_example ''body'' ! 1) ''typeAnnotation''"

definition outer_dictionary :: cursor where
  "outer_dictionary = child (elems nested_example ''body'' ! 2) ''typeAnnotation''"

definition inner_dictionary :: cursor where
  "inner_dictionary = type_arguments outer_dictionary ! 1"

definition ready_dictionary_state :: dictionary_rule_state where
  "ready_dictionary_state =
     \<lparr>dr_environment = Some nested_example_env, dr_cache = \<lambda>_. None\<rparr>"

subsection \<open>Properties\<close>

text \<open>
  C5: with enough stack no-unsafe-dictionary-type completes its run on every program for which
  the names of alias parameters can be ranked as follows: wherever a reference by the name of an
  alias gives an argument for a parameter, and in the default of a parameter, only names of
  alias parameters of lower rank are mentioned, or the argument is just the parameter's own
  name. (Names count, not binders: Box<T | null> in a function with a type parameter T is not
  ranked when Box has a parameter T.)
\<close>

theorem unsafe_dictionary_rule_returns:
  assumes "kind p = ''Program''"
    and "ranked_source rank p (fst (createTypeEnvironment p (sc_visitorKeys sc) (dr_cache st)))"
    and "\<forall>c \<in> set cs. valid c \<and> root c = focus p \<and> kind c \<noteq> ''Program''"
  shows "\<exists>n. \<forall>m\<ge>n. run_listener (noUnsafeDictionaryTypeRule m) sc (p # cs) st \<noteq> None"
proof -
  let ?env = "fst (createTypeEnvironment p (sc_visitorKeys sc) (dr_cache st))"
  let ?st = "\<lparr>dr_environment = Some ?env,
    dr_cache = snd (createTypeEnvironment p (sc_visitorKeys sc) (dr_cache st))\<rparr>"
  let ?F = "\<lambda>c n. case (reportIfUnsafe n (Some ?env) c, reportIndexSignature n (Some ?env) c) of
      (Some a, Some b) \<Rightarrow> Some () | _ \<Rightarrow> None"
  have "converges (?F c)" if c: "c \<in> set cs" for c
  proof -
    obtain n k where "\<forall>m\<ge>n. reportIfUnsafe m (Some ?env) c \<noteq> None"
      "\<forall>m\<ge>k. reportIndexSignature m (Some ?env) c \<noteq> None"
      using report_converges [OF assms(2)] assms(3) c unfolding converges_def by metis
    then have "\<forall>m\<ge>max n k. ?F c m \<noteq> None" by (auto split: option.split)
    then show ?thesis unfolding converges_def by blast
  qed
  then obtain n where n: "\<forall>m\<ge>n. \<forall>c\<in>set cs. ?F c m \<noteq> None"
    using converges_finite [of "set cs" ?F] by blast
  have "run_listener (noUnsafeDictionaryTypeRule m) sc (p # cs) st \<noteq> None" if "m \<ge> n" for m
  proof -
    have "\<exists>rs. noUnsafeDictionaryTypeRule m sc c ?st = Some (?st, rs)" if "c \<in> set cs" for c
      using n \<open>m \<ge> n\<close> assms(3) that
      by (fastforce simp: noUnsafeDictionaryTypeRule_def split: option.splits)
    then have "run_listener (noUnsafeDictionaryTypeRule m) sc cs ?st \<noteq> None"
      by (rule run_listener_total)
    moreover have "noUnsafeDictionaryTypeRule m sc p st = Some (?st, [])"
      by (simp add: noUnsafeDictionaryTypeRule_def assms(1) case_prod_beta)
    ultimately show ?thesis by simp
  qed
  then show ?thesis by blast
qed

theorem unsafe_dictionary_rule_returns_witness:
  "\<exists>n. \<forall>m\<ge>n. run_listener (noUnsafeDictionaryTypeRule m) example_source
     (ranked_example # tl (preorder example_keys ranked_example)) fresh_dictionary_state \<noteq> None"
proof (rule unsafe_dictionary_rule_returns)
  show "kind ranked_example = ''Program''" by code_simp
  have "env_ok (typeAliases ranked_example_env)"
    by (simp add: ranked_example_env_def create_environment_ok)
  moreover have "list_all (ranked_alias example_rank (typeAliases ranked_example_env))
      (aliases (typeAliases ranked_example_env))" by code_simp
  moreover have "ranked_arguments example_rank (typeAliases ranked_example_env) (focus ranked_example)"
    by code_simp
  ultimately have "ranked_source example_rank ranked_example ranked_example_env"
    by (simp add: ranked_source_def ranked_program_def)
  then show "ranked_source example_rank ranked_example (fst (createTypeEnvironment ranked_example
      (sc_visitorKeys example_source) (dr_cache fresh_dictionary_state)))"
    by (simp add: ranked_example_env_def example_source_def fresh_dictionary_state_def)
  show "\<forall>c \<in> set (tl (preorder example_keys ranked_example)).
      valid c \<and> root c = focus ranked_example \<and> kind c \<noteq> ''Program''" by code_simp
qed

text \<open>
  C4: when a dictionary type is reported, no type node around it below the program is reported:
  each unsafe dictionary gives one report, at its outermost type node.
\<close>

theorem reports_not_nested:
  assumes "reportIfUnsafe depth (Some env) c = Some (r # rs)"
    and "a \<in> set (below_program (ancestors c))" and "isTypeNode a"
  shows "reportIfUnsafe depth (Some env) a = Some []"
proof -
  from assms(1) have "shouldReportType depth c env = Some True"
    by (auto simp: reportIfUnsafe_def split: option.splits bool.splits)
  then have "classifyUnsafeDictionary depth a env = Some None"
    using assms(2,3) by (rule should_report_outermost)
  then show ?thesis by (simp add: reportIfUnsafe_def shouldReportType_def)
qed

theorem reports_not_nested_witness:
  "reportIfUnsafe 6 (Some nested_example_env) inner_dictionary =
     Some [unsafe_report inner_dictionary UUnknown] \<and>
   reportIfUnsafe 6 (Some nested_example_env) outer_dictionary = Some []"
proof -
  have "reportIfUnsafe 6 (Some nested_example_env) inner_dictionary =
      Some [unsafe_report inner_dictionary UUnknown]"
    and "outer_dictionary \<in> set (below_program (ancestors inner_dictionary))"
    and "isTypeNode outer_dictionary" by code_simp+
  with reports_not_nested show ?thesis by blast
qed

text \<open>
  C30: a dictionary type inside parentheses is never reported, however unsafe: the parenthesised
  node counts as an unsafe type around it, and the rule does not listen to that node.
\<close>

theorem parenthesised_dictionary_silent:
  assumes "kind p = ''TSParenthesizedType''"
    and "kind (child p ''typeAnnotation'') \<in> {''TSTypeReference'', ''TSTypeLiteral'', ''TSMappedType''}"
    and "noUnsafeDictionaryTypeRule depth sc (child p ''typeAnnotation'') st = Some (st', rs)"
  shows "rs = [] \<and> noUnsafeDictionaryTypeRule depth sc p st = Some (st, [])"
proof -
  let ?c = "child p ''typeAnnotation''"
  have run: "reportIfUnsafe depth (dr_environment st) ?c = Some rs"
    using assms(2,3) by (auto simp: noUnsafeDictionaryTypeRule_def split: if_splits)
  have "rs = []"
  proof (cases "dr_environment st")
    case (Some env)
    then show ?thesis using parenthesised_report [OF assms(1), of depth env rs] run by simp
  qed (use run in \<open>simp add: reportIfUnsafe_def\<close>)
  with assms(1) show ?thesis by (simp add: noUnsafeDictionaryTypeRule_def)
qed

theorem parenthesised_dictionary_silent_witness:
  "classifyUnsafeDictionary 6 (child wrapped_dictionary ''typeAnnotation'') nested_example_env =
     Some (Some UUnknown) \<and>
   (\<exists>rs. noUnsafeDictionaryTypeRule 6 example_source (child wrapped_dictionary ''typeAnnotation'')
      ready_dictionary_state = Some (ready_dictionary_state, rs) \<and> rs = []) \<and>
   noUnsafeDictionaryTypeRule 6 example_source wrapped_dictionary ready_dictionary_state =
     Some (ready_dictionary_state, [])"
proof -
  let ?c = "child wrapped_dictionary ''typeAnnotation''"
  have k: "kind wrapped_dictionary = ''TSParenthesizedType''" "kind ?c = ''TSTypeReference''"
    and u: "classifyUnsafeDictionary 6 ?c nested_example_env = Some (Some UUnknown)"
    and "reportIfUnsafe 6 (Some nested_example_env) ?c = Some []"
    by code_simp+
  then have run: "noUnsafeDictionaryTypeRule 6 example_source ?c ready_dictionary_state =
      Some (ready_dictionary_state, [])"
    by (simp add: noUnsafeDictionaryTypeRule_def ready_dictionary_state_def)
  show ?thesis
    using parenthesised_dictionary_silent [OF k(1) _ run] k(2) u run by simp
qed

end
