(* ===== verification/Dictionary_Divergence.thy ===== *)
theory Dictionary_Divergence
  imports Unsafe_Dictionary
begin

text \<open>
  Programs on which the dictionary classifiers exhaust the stack.

  A substitution map that binds a parameter to a union that mentions the parameter sends the
  classification of the parameter to the union and from there to the parameter again. Such a
  map arises when one generic alias applies another whose parameter has the same name, as in
  \<^verbatim>\<open>type Box<T> = Record<string, T>; type MaybeBox<T> = Box<T | null>\<close>.
\<close>

lemma unsafe_call_substitution:
  assumes "kind (unwrapTransparentType c) = ''TSTypeReference''"
    and "typeReferenceName (unwrapTransparentType c) = Some name"
    and "name \<notin> set TRANSPARENT_WRAPPERS" and "map_of subs name = Some s"
    and "\<not> isUnappliedReferenceTo s name"
  shows "unsafe_call env (c, subs, res) = Tail (s, subs, res)"
  using assms by (simp add: unsafe_call_def unsafe_reference_def)

lemma unsafe_call_union:
  assumes "kind (unwrapTransparentType c) = ''TSUnionType''"
  shows "unsafe_call env (c, subs, res) =
    AnyCall (map (\<lambda>m. (m, subs, res)) (elems (unwrapTransparentType c) ''types''))
      (\<lambda>r. r \<noteq> None) (\<lambda>b. if b then Some UUnion else None)"
  using assms by (simp add: unsafe_call_def)

definition refers_to :: "cursor \<Rightarrow> string \<Rightarrow> bool" where
  "refers_to c name \<longleftrightarrow>
     kind (unwrapTransparentType c) = ''TSTypeReference'' \<and>
     typeReferenceName (unwrapTransparentType c) = Some name"

lemma self_referring_union_diverges:
  assumes "refers_to c name" and "name \<notin> set TRANSPARENT_WRAPPERS"
    and "map_of subs name = Some s" and "kind (unwrapTransparentType s) = ''TSUnionType''"
    and "elems (unwrapTransparentType s) ''types'' = m # ms" and "refers_to m name"
  shows "unsafeDirectValue n c env subs res = None"
proof -
  let ?S = "{(c, subs, res), (s, subs, res), (m, subs, res)}"
  have unapplied: "\<not> isUnappliedReferenceTo s name"
    using assms(4) by (simp add: isUnappliedReferenceTo_def)
  have "unsafe_call env (d, subs, res) = Tail (s, subs, res)" if "refers_to d name" for d
    using that unapplied assms(2,3) by (intro unsafe_call_substitution) (auto simp: refers_to_def)
  with assms(1,6) have "first_call (unsafe_call env (c, subs, res)) (s, subs, res)"
    and "first_call (unsafe_call env (m, subs, res)) (s, subs, res)"
    by (simp_all add: first_call_def)
  moreover have "first_call (unsafe_call env (s, subs, res)) (m, subs, res)"
    using assms(4,5) by (simp add: unsafe_call_union first_call_def)
  ultimately have "\<exists>t\<in>?S. first_call (unsafe_call env st) t" if "st \<in> ?S" for st
    using that by blast
  moreover have "(c, subs, res) \<in> ?S" by blast
  ultimately show ?thesis
    unfolding unsafeDirectValue_def by (rule run_calls_diverges)
qed

subsection \<open>A program that crashes the rule\<close>

definition maybe_box_program :: node where
  "maybe_box_program = program_node
     [type_alias_decl ''Box'' [''T'']
        (type_ref ''Record'' [nd ''TSStringKeyword'' [], type_ref ''T'' []]),
      type_alias_decl ''MaybeBox'' [''T'']
        (type_ref ''Box'' [union_type [type_ref ''T'' [], nd ''TSNullKeyword'' []]])]"

definition mb_program :: cursor where
  "mb_program = Cursor maybe_box_program []"

definition mb_env :: type_environment where
  "mb_env = fst (createTypeEnvironment mb_program example_keys (\<lambda>_. None))"

text \<open>The references \<^verbatim>\<open>Box<T | null>\<close>, its argument, and \<^verbatim>\<open>T\<close> in the body of \<^verbatim>\<open>Box\<close>.\<close>

definition mb_use :: cursor where
  "mb_use = child (elems mb_program ''body'' ! 1) ''typeAnnotation''"

definition mb_argument :: cursor where
  "mb_argument = type_arguments mb_use ! 0"

definition mb_body :: cursor where
  "mb_body = child (elems mb_program ''body'' ! 0) ''typeAnnotation''"

definition mb_value :: cursor where
  "mb_value = type_arguments mb_body ! 1"

lemma mb_first_call:
  "tail_of (dictionary_call mb_env (mb_use, [], [])) =
     Some (mb_body, [(''T'', mb_argument)], [''Box''])"
  by code_simp

lemma mb_second_call:
  "result_of (dictionary_call mb_env (mb_body, [(''T'', mb_argument)], [''Box''])) =
     Some [(mb_value, [(''T'', mb_argument)])]"
  by code_simp

lemma mb_diverges: "unsafeDirectValue n mb_value mb_env [(''T'', mb_argument)] [] = None"
proof (rule self_referring_union_diverges)
  show "elems (unwrapTransparentType mb_argument) ''types'' =
      hd (elems (unwrapTransparentType mb_argument) ''types'') #
      tl (elems (unwrapTransparentType mb_argument) ''types'')"
    by code_simp
  show "refers_to mb_value ''T''" by code_simp
  show "refers_to (hd (elems (unwrapTransparentType mb_argument) ''types'')) ''T''" by code_simp
  show "kind (unwrapTransparentType mb_argument) = ''TSUnionType''" by code_simp
qed (simp_all add: TRANSPARENT_WRAPPERS_def)

lemma mb_classify: "classifyUnsafeDictionary n mb_use mb_env = None"
proof -
  have "dictionaryValueTypes n mb_use mb_env [] [] = None \<or>
      dictionaryValueTypes n mb_use mb_env [] [] = Some [(mb_value, [(''T'', mb_argument)])]"
  proof (cases n)
    case (Suc k)
    then show ?thesis
      using mb_first_call [unfolded tail_of_iff] mb_second_call [unfolded result_of_iff]
      by (cases k) (simp_all add: dictionaryValueTypes_def)
  qed (simp add: dictionaryValueTypes_def)
  then show ?thesis by (auto simp: classifyUnsafeDictionary_def mb_diverges)
qed

lemma mb_env_fresh: "fst (createTypeEnvironment mb_program (sc_visitorKeys example_source) (dr_cache fresh_dictionary_state)) = mb_env"
  by (simp add: mb_env_def example_source_def fresh_dictionary_state_def)

lemma mb_handler:
  assumes "dr_environment st = Some mb_env"
  shows "noUnsafeDictionaryTypeRule n example_source mb_use st = None"
proof -
  have "kind mb_use = ''TSTypeReference''" "type_arguments mb_use \<noteq> []"
    "\<not> isInsideTypeParameterConstraint mb_use"
    by code_simp+
  then show ?thesis
    using assms
    by (simp add: noUnsafeDictionaryTypeRule_def reportIfUnsafe_def shouldReportType_def
        isPlainAliasConsumerUse_def mb_classify)
qed

subsection \<open>Properties\<close>

text \<open>
  C3: on the program with type Box<T> = Record<string, T> and type MaybeBox<T> = Box<T | null>
  the run of no-unsafe-dictionary-type exhausts the stack, whatever its depth: the type
  parameter T is bound to a union that mentions T, and the classification of the dictionary's
  value follows the binding again and again.
\<close>

theorem unsafe_dictionary_rule_overflows:
  "run_listener (noUnsafeDictionaryTypeRule n) example_source (preorder example_keys mb_program)
     fresh_dictionary_state = None"
proof -
  let ?l = "noUnsafeDictionaryTypeRule n"
  have nodes: "preorder example_keys mb_program = mb_program # tl (preorder example_keys mb_program)"
    by (subst (1 2) preorder.simps) simp
  have facts: "kind mb_program = ''Program''"
    "list_all (\<lambda>c. kind c \<noteq> ''Program'') (tl (preorder example_keys mb_program))"
    "mb_use \<in> set (tl (preorder example_keys mb_program))"
    by code_simp+
  obtain st where st: "?l example_source mb_program fresh_dictionary_state = Some (st, [])"
    "dr_environment st = Some mb_env"
    using facts(1) mb_env_fresh by (simp add: noUnsafeDictionaryTypeRule_def case_prod_beta)
  have "run_listener ?l example_source (tl (preorder example_keys mb_program)) st = None"
    using facts(2,3) mb_handler [OF st(2)]
    by (intro run_listener_abort [where c = mb_use])
      (auto simp: noUnsafeDictionaryTypeRule_def list_all_iff split: if_splits)
  with st show ?thesis by (subst nodes) simp
qed

end
