(* ===== verification/Array_Methods.thy ===== *)
theory Array_Methods
  imports Lint_Context Type_Resolution
begin

text \<open>
  \<^verbatim>\<open>shared/array-method.ts\<close> and the rules built on it, \<^verbatim>\<open>no-array-filter-map\<close> and
  \<^verbatim>\<open>no-reduce-accumulator-copy\<close>.

  Whether an expression is an array is decided from local evidence: an array literal, a call of
  an array method on an array, or a binding whose annotation or constant initializer says so.
  The initializers are followed with a set of visited variables.
\<close>

subsection \<open>Array expressions\<close>

definition array_wrapper_kinds :: "string list" where
  "array_wrapper_kinds =
     [''ParenthesizedExpression'', ''ChainExpression'', ''TSAsExpression'', ''TSTypeAssertion'',
      ''TSNonNullExpression'', ''TSSatisfiesExpression'']"

definition unwrapArrayExpression :: "cursor \<Rightarrow> cursor" where
  "unwrapArrayExpression node =
     unwrap_while (\<lambda>c. kind c \<in> set array_wrapper_kinds) ''expression'' node"

definition resolveArrayBinding :: "source_code \<Rightarrow> cursor \<Rightarrow> variable option" where
  "resolveArrayBinding sc node =
     (let node = unwrapArrayExpression node in
      if kind node \<noteq> ''Identifier'' then None
      else lookup_scope (identifier_name node) (getScope sc node))"

definition literal_string :: "cursor \<Rightarrow> string option" where
  "literal_string c =
     (if kind c = ''Literal''
      then (case prim_of c ''value'' of Some (PStr s) \<Rightarrow> Some s | _ \<Rightarrow> None) else None)"

definition arrayMethodTarget :: "cursor \<Rightarrow> (string \<times> cursor) option" where
  "arrayMethodTarget node =
     (let node = unwrapArrayExpression node; property = child node ''property'' in
      if kind node \<noteq> ''MemberExpression'' then None
      else if \<not> flag_of node ''computed'' \<and> kind property = ''Identifier''
      then Some (identifier_name property, child node ''object'')
      else if flag_of node ''computed'' \<and> literal_string property \<noteq> None
      then Some (the (literal_string property), child node ''object'')
      else None)"

function isArrayAnnotation :: "cursor \<Rightarrow> bool" where
  "isArrayAnnotation type =
     (if kind type = ''TSArrayType'' \<or> kind type = ''TSTupleType'' then True
      else if kind type = ''TSParenthesizedType''
      then isArrayAnnotation (child type ''typeAnnotation'')
      else if kind type = ''TSTypeOperator'' \<and> str_of type ''operator'' = ''readonly''
      then isArrayAnnotation (child type ''typeAnnotation'')
      else kind type = ''TSTypeReference'' \<and> kind (child type ''typeName'') = ''Identifier'' \<and>
           identifier_name (child type ''typeName'') \<in> {''Array'', ''ReadonlyArray''})"
  by pat_completeness auto
termination
  by (relation "measure (\<lambda>c. size (focus c))") (auto simp: size_child_node kind_not_absent)

declare isArrayAnnotation.simps [simp del]

definition array_result_methods :: "string list" where
  "array_result_methods =
     [''map'', ''filter'', ''flatMap'', ''slice'', ''concat'', ''toSorted'', ''toReversed'',
      ''toSpliced'']"

text \<open>A definition \<^verbatim>\<open>const x = init\<close> of an identifier.\<close>

definition const_initializer :: "var_definition \<Rightarrow> bool" where
  "const_initializer d \<longleftrightarrow>
     def_type d = ''Variable'' \<and> kind (def_node d) = ''VariableDeclarator'' \<and>
     kind (child (def_node d) ''id'') = ''Identifier'' \<and> \<not> null (child (def_node d) ''init'') \<and>
     (case parent (def_node d) of
        None \<Rightarrow> False
      | Some p \<Rightarrow> kind p = ''VariableDeclaration'' \<and> str_of p ''kind'' = ''const'')"

definition annotation_of :: "cursor \<Rightarrow> cursor option" where
  "annotation_of identifier = opt_child (child identifier ''typeAnnotation'') ''typeAnnotation''"

definition known_array_variable ::
    "variable \<Rightarrow> nat list \<Rightarrow> (cursor \<times> nat list, bool) call" where
  "known_array_variable v visited =
     (if var_id v \<in> set visited then Done False
      else if reassigned v then Done False
      else case find (\<lambda>i. annotation_of i \<noteq> None) (var_identifiers v) of
             Some i \<Rightarrow> Done (isArrayAnnotation (the (annotation_of i)))
           | None \<Rightarrow>
               (case find const_initializer (var_defs v) of
                  Some d \<Rightarrow> Tail (child (def_node d) ''init'', var_id v # visited)
                | None \<Rightarrow> Done False))"

definition known_array_call ::
    "source_code \<Rightarrow> cursor \<times> nat list \<Rightarrow> (cursor \<times> nat list, bool) call" where
  "known_array_call sc st =
     (case st of (node, visited) \<Rightarrow>
        let node = unwrapArrayExpression node in
        if kind node = ''ArrayExpression'' then Done True
        else if kind node = ''CallExpression''
        then (case arrayMethodTarget (child node ''callee'') of
                None \<Rightarrow> Done False
              | Some (name, object) \<Rightarrow>
                  if name \<in> set array_result_methods then Tail (object, visited) else Done False)
        else if kind node \<noteq> ''Identifier'' then Done False
        else case resolveArrayBinding sc node of
               None \<Rightarrow> Done False
             | Some v \<Rightarrow> known_array_variable v visited)"

definition isKnownArrayExpression :: "nat \<Rightarrow> source_code \<Rightarrow> cursor \<Rightarrow> nat list \<Rightarrow> bool option" where
  "isKnownArrayExpression depth sc node visited =
     run_calls (known_array_call sc) depth (node, visited)"

subsection \<open>no-array-filter-map\<close>

definition noArrayFilterMap_CallExpression :: "nat \<Rightarrow> source_code \<Rightarrow> cursor \<Rightarrow> report list option" where
  "noArrayFilterMap_CallExpression depth sc node =
     (case arrayMethodTarget (child node ''callee'') of
        None \<Rightarrow> Some []
      | Some (outer, outer_object) \<Rightarrow>
          if outer \<noteq> ''map'' \<and> outer \<noteq> ''filter'' then Some []
          else let innerCall = unwrapArrayExpression outer_object in
               if kind innerCall \<noteq> ''CallExpression'' then Some []
               else case arrayMethodTarget (child innerCall ''callee'') of
                      None \<Rightarrow> Some []
                    | Some (inner, inner_object) \<Rightarrow>
                        if inner \<noteq> (if outer = ''map'' then ''filter'' else ''map'') then Some []
                        else map_option (\<lambda>known.
                               if known then [\<lparr>rnode = node, messageId = ''arrayFilterMap'',
                                 rdata = [(''first'', inner), (''second'', outer)]\<rparr>] else [])
                             (isKnownArrayExpression depth sc inner_object []))"

definition noArrayFilterMapRule :: "nat \<Rightarrow> unit listener" where
  "noArrayFilterMapRule depth sc node st =
     (if kind node = ''CallExpression''
      then map_option (Pair ()) (noArrayFilterMap_CallExpression depth sc node)
      else Some ((), []))"

subsection \<open>no-reduce-accumulator-copy\<close>

record reducer =
  red_callback :: cursor
  red_accumulator :: cursor
  red_initialValue :: "cursor option"

text \<open>The owner of a callback: the first ancestor that does not unwrap to the callback.\<close>

definition callback_owner :: "cursor \<Rightarrow> cursor option" where
  "callback_owner callback = find (\<lambda>c. unwrapArrayExpression c \<noteq> callback) (ancestors callback)"

definition reducer_of_callback :: "cursor \<Rightarrow> reducer option" where
  "reducer_of_callback callback =
     (case callback_owner callback of
        None \<Rightarrow> None
      | Some call \<Rightarrow>
          if kind call \<noteq> ''CallExpression'' then None
          else let args = elems call ''arguments'' in
            (case arrayMethodTarget (child call ''callee'') of
               None \<Rightarrow> None
             | Some (name, object) \<Rightarrow>
                 if name \<noteq> ''reduce'' \<and> name \<noteq> ''reduceRight'' then None
                 else if length args > 2 then None
                 else case at_index args 0 of
                        None \<Rightarrow> None
                      | Some firstArgument \<Rightarrow>
                          if unwrapArrayExpression firstArgument \<noteq> callback then None
                          else case at_index (elems callback ''params'') 0 of
                                 None \<Rightarrow> None
                               | Some firstParameter \<Rightarrow>
                                   let accumulator =
                                     (if kind firstParameter = ''AssignmentPattern''
                                      then child firstParameter ''left'' else firstParameter)
                                   in if kind accumulator \<noteq> ''Identifier'' then None
                                      else Some \<lparr>red_callback = callback,
                                                 red_accumulator = accumulator,
                                                 red_initialValue = at_index args 1\<rparr>))"

fun reducer_walk :: "cursor list \<Rightarrow> reducer option" where
  "reducer_walk [] = None"
| "reducer_walk (p # rest) =
     (if kind p = ''FunctionDeclaration'' then None
      else if kind p = ''ArrowFunctionExpression'' \<or> kind p = ''FunctionExpression''
      then reducer_of_callback p
      else reducer_walk rest)"

definition enclosingReducer :: "cursor \<Rightarrow> reducer option" where
  "enclosingReducer node = reducer_walk (ancestors node)"

definition references_accumulator_call ::
    "source_code \<Rightarrow> variable \<Rightarrow> cursor \<times> nat list \<Rightarrow> (cursor \<times> nat list, bool) call" where
  "references_accumulator_call sc accumulator st =
     (case st of (node, visited) \<Rightarrow>
        case resolveArrayBinding sc node of
          None \<Rightarrow> Done False
        | Some v \<Rightarrow>
            if var_id v \<in> set visited then Done False
            else if var_id v = var_id accumulator then Done True
            else if reassigned v then Done False
            else case find const_initializer (var_defs v) of
                   Some d \<Rightarrow> Tail (child (def_node d) ''init'', var_id v # visited)
                 | None \<Rightarrow> Done False)"

definition referencesAccumulator ::
    "nat \<Rightarrow> source_code \<Rightarrow> cursor \<Rightarrow> variable \<Rightarrow> nat list \<Rightarrow> bool option" where
  "referencesAccumulator depth sc node accumulator visited =
     run_calls (references_accumulator_call sc accumulator) depth (node, visited)"

definition isGlobalCopyOwner :: "source_code \<Rightarrow> cursor \<Rightarrow> string \<Rightarrow> bool" where
  "isGlobalCopyOwner sc node name =
     (let node = unwrapArrayExpression node in
      if kind node \<noteq> ''Identifier'' \<or> identifier_name node \<noteq> name then False
      else case resolveArrayBinding sc node of
             None \<Rightarrow> True
           | Some v \<Rightarrow> var_defs v = [])"

definition copy_methods :: "string list" where
  "copy_methods = [''concat'', ''slice'', ''toSpliced'', ''toSorted'', ''toReversed'', ''with'']"

definition copiesAccumulator ::
    "nat \<Rightarrow> source_code \<Rightarrow> cursor \<Rightarrow> string \<Rightarrow> cursor \<Rightarrow> reducer \<Rightarrow> variable \<Rightarrow> bool option" where
  "copiesAccumulator depth sc node name object red accumulator =
     (let args = elems node ''arguments'';
          isAccumulator = (\<lambda>e. referencesAccumulator depth sc e accumulator []) in
      if name = ''assign'' \<and> isGlobalCopyOwner sc object ''Object''
      then (case at_index args 0 of
              None \<Rightarrow> Some False
            | Some target \<Rightarrow>
                if kind (unwrapArrayExpression target) = ''ObjectExpression''
                then some_opt isAccumulator (drop 1 args) else Some False)
      else if name = ''from'' \<and> isGlobalCopyOwner sc object ''Array''
      then (case at_index args 0 of None \<Rightarrow> Some False | Some source \<Rightarrow> isAccumulator source)
      else if name \<in> set copy_methods
      then (case red_initialValue red of
              None \<Rightarrow> Some False
            | Some initialValue \<Rightarrow>
                (case isKnownArrayExpression depth sc initialValue [] of
                   None \<Rightarrow> None
                 | Some False \<Rightarrow> Some False
                 | Some True \<Rightarrow> isAccumulator object))
      else Some False)"

definition accumulator_variable :: "source_code \<Rightarrow> reducer \<Rightarrow> variable option" where
  "accumulator_variable sc red =
     find (\<lambda>v. list_ex (\<lambda>i. startp i = startp (red_accumulator red)) (var_identifiers v))
       (getDeclaredVariables sc (red_callback red))"

definition noReduceAccumulatorCopy_CallExpression ::
    "nat \<Rightarrow> source_code \<Rightarrow> cursor \<Rightarrow> report list option" where
  "noReduceAccumulatorCopy_CallExpression depth sc node =
     (case arrayMethodTarget (child node ''callee'') of
        None \<Rightarrow> Some []
      | Some (name, object) \<Rightarrow>
          (case enclosingReducer node of
             None \<Rightarrow> Some []
           | Some red \<Rightarrow>
               (case accumulator_variable sc red of
                  None \<Rightarrow> Some []
                | Some accumulator \<Rightarrow>
                    map_option (\<lambda>copies.
                        if copies then [\<lparr>rnode = node, messageId = ''accumulatorCopy'', rdata = []\<rparr>]
                        else [])
                      (copiesAccumulator depth sc node name object red accumulator))))"

definition noReduceAccumulatorCopyRule :: "nat \<Rightarrow> unit listener" where
  "noReduceAccumulatorCopyRule depth sc node st =
     (if kind node = ''CallExpression''
      then map_option (Pair ()) (noReduceAccumulatorCopy_CallExpression depth sc node)
      else Some ((), []))"

subsection \<open>Unwrapping\<close>

lemma size_unwrap_array: "size (focus (unwrapArrayExpression c)) \<le> size (focus c)"
  unfolding unwrapArrayExpression_def by (rule size_unwrap_while)

lemma unwrap_array_idem [simp]:
  "unwrapArrayExpression (unwrapArrayExpression c) = unwrapArrayExpression c"
  by (simp add: unwrapArrayExpression_def)

lemma resolve_unwrapped [simp]:
  "resolveArrayBinding sc (unwrapArrayExpression c) = resolveArrayBinding sc c"
  by (simp add: resolveArrayBinding_def)

lemma target_unwrapped [simp]:
  "arrayMethodTarget (unwrapArrayExpression c) = arrayMethodTarget c"
  by (simp add: arrayMethodTarget_def)

lemma known_array_call_unwrapped:
  "known_array_call sc (unwrapArrayExpression c, visited) = known_array_call sc (c, visited)"
  by (simp add: known_array_call_def)

lemma arrayMethodTarget_object:
  assumes "arrayMethodTarget c = Some (name, object)"
  shows "size (focus object) < size (focus c)"
proof -
  let ?u = "unwrapArrayExpression c"
  from assms have "kind ?u = ''MemberExpression''" and "object = child ?u ''object''"
    by (auto simp: arrayMethodTarget_def Let_def split: if_splits)
  then have "size (focus object) < size (focus ?u)"
    using size_child [of ?u "''object''"] by (simp add: kind_not_absent)
  with size_unwrap_array [of c] show ?thesis by simp
qed

subsection \<open>Following initializers\<close>

lemma resolved_in_variables: "resolveArrayBinding sc c = Some v \<Longrightarrow> v \<in> variables sc"
  by (auto simp: resolveArrayBinding_def Let_def split: if_splits intro: lookup_in_variables)

text \<open>The same searches without the visited variables.\<close>

definition array_variable :: "source_code \<Rightarrow> cursor \<Rightarrow> nat option" where
  "array_variable sc c = map_option var_id (resolveArrayBinding sc c)"

definition known_array_plain :: "source_code \<Rightarrow> cursor \<Rightarrow> bool + cursor" where
  "known_array_plain sc c =
     (let node = unwrapArrayExpression c in
      if kind node = ''ArrayExpression'' then Inl True
      else if kind node = ''CallExpression''
      then (case arrayMethodTarget (child node ''callee'') of
              None \<Rightarrow> Inl False
            | Some (name, object) \<Rightarrow>
                if name \<in> set array_result_methods then Inr object else Inl False)
      else case resolveArrayBinding sc c of
             None \<Rightarrow> Inl False
           | Some v \<Rightarrow>
               if reassigned v then Inl False
               else case find (\<lambda>i. annotation_of i \<noteq> None) (var_identifiers v) of
                      Some i \<Rightarrow> Inl (isArrayAnnotation (the (annotation_of i)))
                    | None \<Rightarrow>
                        (case find const_initializer (var_defs v) of
                           Some d \<Rightarrow> Inr (child (def_node d) ''init'')
                         | None \<Rightarrow> Inl False))"

definition accumulator_plain :: "source_code \<Rightarrow> variable \<Rightarrow> cursor \<Rightarrow> bool + cursor" where
  "accumulator_plain sc accumulator c =
     (case resolveArrayBinding sc c of
        None \<Rightarrow> Inl False
      | Some v \<Rightarrow>
          if var_id v = var_id accumulator then Inl True
          else if reassigned v then Inl False
          else case find const_initializer (var_defs v) of
                 Some d \<Rightarrow> Inr (child (def_node d) ''init'')
               | None \<Rightarrow> Inl False)"

lemma resolved_identifier:
  "resolveArrayBinding sc c = Some v \<Longrightarrow> kind (unwrapArrayExpression c) = ''Identifier''"
  by (auto simp: resolveArrayBinding_def Let_def split: if_splits)

lemma array_variableD:
  "array_variable sc c = Some i \<Longrightarrow> \<exists>v. resolveArrayBinding sc c = Some v \<and> var_id v = i"
  by (auto simp: array_variable_def)

lemma array_variable_same:
  assumes "well_scoped sc" and "array_variable sc c = Some i" and "array_variable sc c' = Some i"
  shows "resolveArrayBinding sc c = resolveArrayBinding sc c'"
  using assms(2,3) well_scopedD(2) [OF assms(1)]
  by (fastforce dest!: array_variableD dest: resolved_in_variables)

lemma known_array_object:
  assumes "kind (unwrapArrayExpression c) = ''CallExpression''"
    and "arrayMethodTarget (child (unwrapArrayExpression c) ''callee'') = Some (name, object)"
  shows "size (focus object) < size (focus c)"
  using arrayMethodTarget_object [OF assms(2)] size_unwrap_array [of c]
    size_child [OF kind_not_absent [OF assms(1)], of "''callee''"] by simp

lemma known_array_call_variable:
  assumes "resolveArrayBinding sc c = Some v"
  shows "known_array_call sc (c, visited) =
    (if var_id v \<in> set visited then Done False
     else case_sum Done (\<lambda>d. Tail (d, var_id v # visited)) (known_array_plain sc c))"
  using assms resolved_identifier [OF assms]
  by (auto simp: known_array_call_def known_array_plain_def known_array_variable_def Let_def
      split: option.split)

lemma known_array_call_other:
  assumes "resolveArrayBinding sc c = None"
  shows "known_array_call sc (c, visited) =
    case_sum Done (\<lambda>d. Tail (d, visited)) (known_array_plain sc c)"
  using assms
  by (auto simp: known_array_call_def known_array_plain_def Let_def split: option.split)

interpretation known_array: variable_chain
  "known_array_call (Rep_scope_manager m)" "known_array_plain (Rep_scope_manager m)"
  "array_variable (Rep_scope_manager m)" False "var_id ` variables (Rep_scope_manager m)"
  for m :: scope_manager
proof (unfold_locales, goal_cases)
  case 1
  then show ?case by (rule well_scopedD(1) [OF scope_manager_rep])
next
  case (6 c d)
  then show ?case
    by (auto simp: known_array_plain_def array_variable_def Let_def
        split: if_splits option.splits intro: known_array_object)
next
  case (7 c v c')
  from array_variable_same [OF scope_manager_rep 7] 7 show ?case
    by (auto simp: known_array_plain_def dest!: array_variableD resolved_identifier)
qed (auto simp: array_variable_def known_array_call_variable known_array_call_other
    dest: resolved_in_variables)

lemma accumulator_call_variable:
  assumes "resolveArrayBinding sc c = Some v"
  shows "references_accumulator_call sc acc (c, visited) =
    (if var_id v \<in> set visited then Done False
     else case_sum Done (\<lambda>d. Tail (d, var_id v # visited)) (accumulator_plain sc acc c))"
  using assms
  by (auto simp: references_accumulator_call_def accumulator_plain_def split: option.split)

interpretation acc_references: variable_chain
  "references_accumulator_call (Rep_scope_manager m) acc"
  "accumulator_plain (Rep_scope_manager m) acc"
  "array_variable (Rep_scope_manager m)" False "var_id ` variables (Rep_scope_manager m)"
  for m :: scope_manager and acc :: variable
proof (unfold_locales, goal_cases)
  case 1
  then show ?case by (rule well_scopedD(1) [OF scope_manager_rep])
next
  case (7 c v c')
  from array_variable_same [OF scope_manager_rep 7] show ?case
    by (simp add: accumulator_plain_def)
qed (auto simp: array_variable_def accumulator_call_variable accumulator_plain_def
    references_accumulator_call_def split: option.split dest: resolved_in_variables)

lemma known_array_decides:
  assumes "well_scoped sc"
  shows "\<exists>n. \<forall>m\<ge>n. \<exists>r. isKnownArrayExpression m sc c [] = Some r \<and>
    plain_result (known_array_plain sc) False c r"
  using known_array.chain_decides [of "Abs_scope_manager sc" c] scope_manager_abs [OF assms]
  by (simp add: isKnownArrayExpression_def)

lemma accumulator_decides:
  assumes "well_scoped sc"
  shows "\<exists>n. \<forall>m\<ge>n. \<exists>r. referencesAccumulator m sc c acc [] = Some r \<and>
    plain_result (accumulator_plain sc acc) False c r"
  using acc_references.chain_decides [of "Abs_scope_manager sc" acc c] scope_manager_abs [OF assms]
  by (simp add: referencesAccumulator_def)

lemma copies_returns:
  assumes "well_scoped sc"
  shows "converges (\<lambda>n. copiesAccumulator n sc node name object red acc)"
proof -
  let ?es = "set (object # elems node ''arguments'')"
  have "converges (\<lambda>n. referencesAccumulator n sc e acc [])" for e
    using accumulator_decides [OF assms, of e acc] unfolding converges_def by (metis option.distinct(1))
  then obtain n where n: "\<forall>m\<ge>n. \<forall>e\<in>?es. referencesAccumulator m sc e acc [] \<noteq> None"
    using converges_finite [of ?es "\<lambda>e n. referencesAccumulator n sc e acc []"] by auto
  have "\<exists>k. \<forall>m\<ge>k. isKnownArrayExpression m sc e [] \<noteq> None" for e
    using known_array_decides [OF assms, of e] by (metis option.distinct(1))
  then obtain k where k: "\<forall>m\<ge>k. \<forall>e. red_initialValue red = Some e \<longrightarrow> isKnownArrayExpression m sc e [] \<noteq> None"
    by (metis option.inject)
  have "copiesAccumulator m sc node name object red acc \<noteq> None" if "m \<ge> max n k" for m
  proof -
    have args: "some_opt (\<lambda>e. referencesAccumulator m sc e acc []) (drop 1 (elems node ''arguments'')) \<noteq> None"
      using n that by (intro some_opt_total) (auto dest: in_set_dropD)
    have "referencesAccumulator m sc e acc [] \<noteq> None"
      if "at_index (elems node ''arguments'') 0 = Some e" for e
      using n \<open>m \<ge> max n k\<close> at_index_mem [OF that] by simp
    with args k n that show ?thesis
      by (auto simp: copiesAccumulator_def Let_def split: option.split bool.split)
  qed
  then show ?thesis unfolding converges_def by blast
qed

lemma reducer_walk_nearest:
  "reducer_walk cs = Some red \<Longrightarrow>
   \<exists>before after p. cs = before @ p # after \<and>
     (\<forall>b \<in> set before. kind b \<notin> {''FunctionDeclaration'', ''ArrowFunctionExpression'', ''FunctionExpression''}) \<and>
     kind p \<in> {''ArrowFunctionExpression'', ''FunctionExpression''} \<and> reducer_of_callback p = Some red"
proof (induction cs)
  case (Cons c cs)
  show ?case
  proof (cases "kind c \<in> {''ArrowFunctionExpression'', ''FunctionExpression''}")
    case True
    with Cons.prems show ?thesis
      by (intro exI [of _ "[]"] exI [of _ cs] exI [of _ c]) (auto split: if_splits)
  next
    case False
    with Cons.prems have "kind c \<noteq> ''FunctionDeclaration''" "reducer_walk cs = Some red"
      by (auto split: if_splits)
    with Cons.IH obtain before after p where "cs = before @ p # after"
      "\<forall>b \<in> set before. kind b \<notin> {''FunctionDeclaration'', ''ArrowFunctionExpression'', ''FunctionExpression''}"
      "kind p \<in> {''ArrowFunctionExpression'', ''FunctionExpression''}" "reducer_of_callback p = Some red"
      by blast
    with False \<open>kind c \<noteq> ''FunctionDeclaration''\<close> show ?thesis
      by (intro exI [of _ "c # before"] exI [of _ after] exI [of _ p]) auto
  qed
qed simp

lemma reducer_of_callbackD:
  assumes "reducer_of_callback p = Some red"
  shows "red_callback red = p" and "\<exists>call object.
    callback_owner p = Some call \<and> kind call = ''CallExpression'' \<and>
    (arrayMethodTarget (child call ''callee'') = Some (''reduce'', object) \<or>
     arrayMethodTarget (child call ''callee'') = Some (''reduceRight'', object)) \<and>
    map_option unwrapArrayExpression (at_index (elems call ''arguments'') 0) = Some p \<and>
    red_initialValue red = at_index (elems call ''arguments'') 1"
   using assms by (auto simp: reducer_of_callback_def Let_def split: option.splits if_splits)

text \<open>\<^verbatim>\<open>[].filter().map()\<close> and \<^verbatim>\<open>[].reduce((acc) => f.g())\<close>.\<close>

definition call_of :: "node \<Rightarrow> string \<Rightarrow> node list \<Rightarrow> node" where
  "call_of object name args =
     nd ''CallExpression''
       [(''callee'', Child (nd ''MemberExpression''
           [(''object'', Child object), (''property'', Child (ident name)),
            (''computed'', Prim (PBool False))])),
        (''arguments'', Children args)]"

definition filter_map_call :: cursor where
  "filter_map_call = Cursor (call_of (call_of (nd ''ArrayExpression'' []) ''filter'' []) ''map'' []) []"

definition reduce_call :: cursor where
  "reduce_call = Cursor (call_of (nd ''ArrayExpression'' []) ''reduce''
     [nd ''ArrowFunctionExpression''
        [(''params'', Children [ident ''acc'']), (''body'', Child (call_of (ident ''f'') ''g'' []))]]) []"

definition reduce_body :: cursor where
  "reduce_body = child (elems reduce_call ''arguments'' ! 0) ''body''"

subsection \<open>Properties\<close>

text \<open>
  C11: with enough stack no-array-filter-map returns on every call, and it reports the call
  exactly when it is a map on the result of a filter or a filter on the result of a map whose
  own receiver the naive search (the one without visited variables) finds to be an array.
\<close>

theorem filter_map_reported:
  assumes "well_scoped sc"
  shows "\<exists>n. \<forall>m\<ge>n. \<exists>rs. noArrayFilterMap_CallExpression m sc node = Some rs \<and>
    (rs \<noteq> [] \<longleftrightarrow> (\<exists>outer inner receiver object.
       arrayMethodTarget (child node ''callee'') = Some (outer, receiver) \<and>
       kind (unwrapArrayExpression receiver) = ''CallExpression'' \<and>
       arrayMethodTarget (child (unwrapArrayExpression receiver) ''callee'') = Some (inner, object) \<and>
       {outer, inner} = {''map'', ''filter''} \<and>
       plain_result (known_array_plain sc) False object True))"
proof (cases "\<exists>outer inner receiver object.
       arrayMethodTarget (child node ''callee'') = Some (outer, receiver) \<and>
       kind (unwrapArrayExpression receiver) = ''CallExpression'' \<and>
       arrayMethodTarget (child (unwrapArrayExpression receiver) ''callee'') = Some (inner, object) \<and>
       {outer, inner} = {''map'', ''filter''}")
  case True
  then obtain outer inner receiver object where t:
    "arrayMethodTarget (child node ''callee'') = Some (outer, receiver)"
    "kind (unwrapArrayExpression receiver) = ''CallExpression''"
    "arrayMethodTarget (child (unwrapArrayExpression receiver) ''callee'') = Some (inner, object)"
    "{outer, inner} = {''map'', ''filter''}" by (elim exE conjE)
  have names: "outer = ''map'' \<and> inner = ''filter'' \<or> outer = ''filter'' \<and> inner = ''map''"
    using t(4) by (simp only: doubleton_eq_iff)
  obtain n where n: "\<forall>m\<ge>n. \<exists>r. isKnownArrayExpression m sc object [] = Some r \<and>
      plain_result (known_array_plain sc) False object r"
    using known_array_decides [OF assms] by blast
  have "\<exists>rs. noArrayFilterMap_CallExpression m sc node = Some rs \<and>
      (rs \<noteq> [] \<longleftrightarrow> plain_result (known_array_plain sc) False object True)" if "m \<ge> n" for m
  proof -
    obtain r where r: "isKnownArrayExpression m sc object [] = Some r"
      "plain_result (known_array_plain sc) False object r" using n \<open>m \<ge> n\<close> by blast
    then have "plain_result (known_array_plain sc) False object True \<longleftrightarrow> r"
      using plain_result_unique by metis
    with r t(1-3) names show ?thesis
      by (auto simp: noArrayFilterMap_CallExpression_def Let_def)
  qed
  with t show ?thesis by auto
next
  case False
  then have "noArrayFilterMap_CallExpression m sc node = Some []" for m
    by (auto simp: noArrayFilterMap_CallExpression_def Let_def doubleton_eq_iff
        split: option.split)
  with False show ?thesis by auto
qed

theorem filter_map_reported_witness:
  "\<exists>n. \<forall>m\<ge>n. \<exists>rs. noArrayFilterMap_CallExpression m example_source filter_map_call = Some rs \<and> rs \<noteq> []"
proof -
  let ?receiver = "child (child filter_map_call ''callee'') ''object''"
  let ?object = "child (child ?receiver ''callee'') ''object''"
  have t: "arrayMethodTarget (child filter_map_call ''callee'') = Some (''map'', ?receiver)"
    "kind (unwrapArrayExpression ?receiver) = ''CallExpression''"
    "arrayMethodTarget (child (unwrapArrayExpression ?receiver) ''callee'') = Some (''filter'', ?object)"
    by code_simp+
  have "known_array_plain example_source ?object = Inl True" by code_simp
  then have "plain_result (known_array_plain example_source) False ?object True"
    unfolding plain_result_def by (intro disjI1 exI [of _ 1]) simp
  with t show ?thesis
    using filter_map_reported [OF example_well_scoped, of filter_map_call] by auto
qed

text \<open>
  C15: with enough stack referencesAccumulator returns, and its answer is the answer of the
  recursion without the visited set whenever that recursion ends, and false when it does not:
  the visited set only cuts off constants that are initialized from themselves.
\<close>

theorem accumulator_reference_plain:
  assumes "well_scoped sc"
  shows "\<exists>n. \<forall>m\<ge>n. \<exists>r. referencesAccumulator m sc c acc [] = Some r \<and>
    plain_result (accumulator_plain sc acc) False c r"
  using assms by (rule accumulator_decides)

theorem accumulator_reference_plain_witness:
  "\<exists>n. \<forall>m\<ge>n. \<exists>r. referencesAccumulator m cyclic_source (child cyclic_declarator ''init'')
       (cyclic_variable\<lparr>var_id := 1\<rparr>) [] = Some r \<and>
     plain_result (accumulator_plain cyclic_source (cyclic_variable\<lparr>var_id := 1\<rparr>)) False
       (child cyclic_declarator ''init'') r"
  by (rule accumulator_reference_plain [OF cyclic_well_scoped])

text \<open>
  C18: no-reduce-accumulator-copy returns on every program with enough stack, also when the
  constants it follows are initialized from themselves or from each other.
\<close>

theorem reduce_copy_rule_returns:
  assumes "well_scoped sc"
  shows "\<exists>n. \<forall>m\<ge>n. run_listener (noReduceAccumulatorCopyRule m) sc cs () \<noteq> None"
proof -
  have "converges (\<lambda>n. noReduceAccumulatorCopyRule n sc c ())" for c
  proof -
    have "\<exists>n. \<forall>m\<ge>n. copiesAccumulator m sc c name object red acc \<noteq> None" for name object red acc
      using copies_returns [OF assms] unfolding converges_def .
    then have "\<exists>n. \<forall>m\<ge>n. noReduceAccumulatorCopyRule m sc c () \<noteq> None"
      by (cases "arrayMethodTarget (child c ''callee'')"; cases "enclosingReducer c";
          cases "accumulator_variable sc (the (enclosingReducer c))")
        (auto simp: noReduceAccumulatorCopyRule_def noReduceAccumulatorCopy_CallExpression_def)
    then show ?thesis unfolding converges_def by blast
  qed
  then obtain n where n: "\<forall>m\<ge>n. \<forall>c\<in>set cs. noReduceAccumulatorCopyRule m sc c () \<noteq> None"
    using converges_finite [of "set cs" "\<lambda>c n. noReduceAccumulatorCopyRule n sc c ()"] by auto
  then have "run_listener (noReduceAccumulatorCopyRule m) sc cs () \<noteq> None" if "m \<ge> n" for m
    using that by (intro run_listener_total) auto
  then show ?thesis by blast
qed

theorem reduce_copy_rule_returns_witness:
  "\<exists>n. \<forall>m\<ge>n. run_listener (noReduceAccumulatorCopyRule m) cyclic_source
     [reduce_call, reduce_body] () \<noteq> None"
  by (rule reduce_copy_rule_returns [OF cyclic_well_scoped])

text \<open>
  C22: the reducer a call belongs to is the nearest function around it, a function or arrow
  expression that is, through parentheses and assertions, the first argument of a call of
  reduce or reduceRight; the initial value is the second argument of that call.
\<close>

theorem enclosing_reducer_nearest:
  assumes "enclosingReducer node = Some red"
  shows "\<exists>before after call object.
    ancestors node = before @ red_callback red # after \<and>
    (\<forall>b \<in> set before.
       kind b \<notin> {''FunctionDeclaration'', ''ArrowFunctionExpression'', ''FunctionExpression''}) \<and>
    callback_owner (red_callback red) = Some call \<and> kind call = ''CallExpression'' \<and>
    (arrayMethodTarget (child call ''callee'') = Some (''reduce'', object) \<or>
     arrayMethodTarget (child call ''callee'') = Some (''reduceRight'', object)) \<and>
    map_option unwrapArrayExpression (at_index (elems call ''arguments'') 0) =
      Some (red_callback red) \<and>
    red_initialValue red = at_index (elems call ''arguments'') 1"
proof -
  from assms obtain before after p where p: "ancestors node = before @ p # after"
    "\<forall>b \<in> set before.
       kind b \<notin> {''FunctionDeclaration'', ''ArrowFunctionExpression'', ''FunctionExpression''}"
    and red: "reducer_of_callback p = Some red"
    unfolding enclosingReducer_def using reducer_walk_nearest by meson
  from reducer_of_callbackD(1) [OF red] have "red_callback red = p" .
  with p reducer_of_callbackD(2) [OF red] show ?thesis by metis
qed

theorem enclosing_reducer_nearest_witness:
  "\<exists>before after. ancestors reduce_body = before @ (elems reduce_call ''arguments'' ! 0) # after"
proof -
  have red: "enclosingReducer reduce_body =
      Some \<lparr>red_callback = elems reduce_call ''arguments'' ! 0,
            red_accumulator = elems (elems reduce_call ''arguments'' ! 0) ''params'' ! 0,
            red_initialValue = None\<rparr>"
    by code_simp
  from enclosing_reducer_nearest [OF red] show ?thesis by (metis reducer.select_convs(1))
qed

text \<open>
  C37: parentheses, optional chains, both forms of assertion, non-null marks and satisfies around
  an expression change neither whether it is known to be an array, nor whether it refers to the
  accumulator, nor which method of which object a callee names, nor which variable it resolves
  to: each answer is the one for the expression inside.
\<close>

theorem wrappers_transparent:
  assumes "kind c \<in> {''ParenthesizedExpression'', ''ChainExpression'', ''TSAsExpression'',
    ''TSTypeAssertion'', ''TSNonNullExpression'', ''TSSatisfiesExpression''}"
  shows "isKnownArrayExpression n sc c visited =
      isKnownArrayExpression n sc (child c ''expression'') visited \<and>
    referencesAccumulator n sc c acc visited =
      referencesAccumulator n sc (child c ''expression'') acc visited \<and>
    arrayMethodTarget c = arrayMethodTarget (child c ''expression'') \<and>
    resolveArrayBinding sc c = resolveArrayBinding sc (child c ''expression'')"
proof -
  have "focus c \<noteq> Absent" using assms by (auto dest: kind_not_absent)
  then have same: "unwrapArrayExpression c = unwrapArrayExpression (child c ''expression'')"
    unfolding unwrapArrayExpression_def
    using assms by (intro unwrap_while_step) (auto simp: array_wrapper_kinds_def)
  then have "known_array_call sc (c, visited) = known_array_call sc (child c ''expression'', visited)"
    and "references_accumulator_call sc acc (c, visited) =
      references_accumulator_call sc acc (child c ''expression'', visited)"
    by (metis known_array_call_unwrapped, simp add: references_accumulator_call_def resolveArrayBinding_def)
  with same show ?thesis
    by (cases n) (simp_all add: isKnownArrayExpression_def referencesAccumulator_def
        arrayMethodTarget_def resolveArrayBinding_def)
qed

text \<open>\<^verbatim>\<open>([]!) as never\<close>\<close>

definition wrapped_array :: cursor where
  "wrapped_array = Cursor (nd ''TSAsExpression'' [(''expression'', Child
     (nd ''TSNonNullExpression'' [(''expression'', Child (nd ''ArrayExpression'' []))]))]) []"

theorem wrappers_transparent_witness:
  "isKnownArrayExpression 1 example_source wrapped_array [] = Some True"
proof -
  have 1: "kind wrapped_array = ''TSAsExpression''" "kind (child wrapped_array ''expression'') = ''TSNonNullExpression''"
    and 2: "isKnownArrayExpression 1 example_source
      (child (child wrapped_array ''expression'') ''expression'') [] = Some True" by code_simp+
  show ?thesis
    using wrappers_transparent [of wrapped_array 1 example_source "[]"]
      wrappers_transparent [of "child wrapped_array ''expression''" 1 example_source "[]"] 1 2 by simp
qed

end
