(* ===== verification/Assertions.thy ===== *)
theory Assertions
  imports Lint_Context
begin

text \<open>
  The rule \<^verbatim>\<open>no-chained-type-assertions\<close>: an assertion applied to an assertion, through any
  parentheses, is reported once per chain, at its outermost assertion, unless every assertion
  of the chain is \<^verbatim>\<open>as const\<close>.
\<close>

definition isTypeAssertionExpression :: "cursor \<Rightarrow> bool" where
  "isTypeAssertionExpression node \<longleftrightarrow>
     kind node = ''TSAsExpression'' \<or> kind node = ''TSTypeAssertion''"

definition unwrapParenthesizedExpression :: "cursor \<Rightarrow> cursor" where
  "unwrapParenthesizedExpression expression =
     unwrap_while (\<lambda>c. kind c = ''ParenthesizedExpression'') ''expression'' expression"

definition isConstAssertion :: "cursor \<Rightarrow> bool" where
  "isConstAssertion node =
     (let typeAnnotation = child node ''typeAnnotation'' in
      kind typeAnnotation = ''TSTypeReference'' \<and>
      kind (child typeAnnotation ''typeName'') = ''Identifier'' \<and>
      identifier_name (child typeAnnotation ''typeName'') = ''const'')"

text \<open>The loop over the parents; an assertion always has one.\<close>

fun outermost_walk :: "cursor \<Rightarrow> cursor list \<Rightarrow> bool" where
  "outermost_walk current [] = True"
| "outermost_walk current (p # rest) =
     (if kind p = ''ParenthesizedExpression'' \<and> child p ''expression'' = current
      then outermost_walk p rest
      else \<not> isTypeAssertionExpression p \<or> child p ''expression'' \<noteq> current)"

definition isOutermostAssertionInChain :: "cursor \<Rightarrow> bool" where
  "isOutermostAssertionInChain node = outermost_walk node (ancestors node)"

lemma asserted_smaller:
  assumes "isTypeAssertionExpression c"
  shows "size (focus (unwrapParenthesizedExpression (child c ''expression''))) < size (focus c)"
proof -
  from assms have "focus c \<noteq> Absent"
    by (auto simp: isTypeAssertionExpression_def kind_not_absent)
  then have "size (focus (child c ''expression'')) < size (focus c)" by (rule size_child)
  with size_unwrap_while [of "\<lambda>c. kind c = ''ParenthesizedExpression''" "''expression''"
      "child c ''expression''"]
  show ?thesis by (simp add: unwrapParenthesizedExpression_def)
qed

function chain_scan :: "cursor \<Rightarrow> nat \<Rightarrow> bool \<Rightarrow> nat \<times> bool" where
  "chain_scan current assertionCount hasNonConstAssertion =
     (if isTypeAssertionExpression current
      then chain_scan (unwrapParenthesizedExpression (child current ''expression''))
             (assertionCount + 1) (hasNonConstAssertion \<or> \<not> isConstAssertion current)
      else (assertionCount, hasNonConstAssertion))"
  by pat_completeness auto
termination
  by (relation "measure (\<lambda>(c, n, b). size (focus c))") (simp_all add: asserted_smaller)

declare chain_scan.simps [simp del]

definition isForbiddenAssertionChain :: "cursor \<Rightarrow> bool" where
  "isForbiddenAssertionChain node =
     (let (assertionCount, hasNonConstAssertion) = chain_scan node 0 False
      in assertionCount > 1 \<and> hasNonConstAssertion)"

definition checkTypeAssertion :: "cursor \<Rightarrow> report list" where
  "checkTypeAssertion node =
     (if \<not> isOutermostAssertionInChain node \<or> \<not> isForbiddenAssertionChain node then []
      else [\<lparr>rnode = node, messageId = ''chained'', rdata = []\<rparr>])"

definition noChainedTypeAssertionsRule :: "unit listener" where
  "noChainedTypeAssertionsRule =
     stateless (\<lambda>sc node.
       if kind node = ''TSAsExpression'' \<or> kind node = ''TSTypeAssertion''
       then checkTypeAssertion node else [])"

subsection \<open>Chains\<close>

text \<open>The assertions of the chain that starts at a node, outermost first.\<close>

function assertion_chain :: "cursor \<Rightarrow> cursor list" where
  "assertion_chain c =
     (if isTypeAssertionExpression c
      then c # assertion_chain (unwrapParenthesizedExpression (child c ''expression'')) else [])"
  by pat_completeness auto
termination
  by (relation "measure (\<lambda>c. size (focus c))") (simp_all add: asserted_smaller)

declare assertion_chain.simps [simp del]

lemma chain_scan_eq:
  "chain_scan c n b =
     (n + length (assertion_chain c), b \<or> \<not> list_all isConstAssertion (assertion_chain c))"
proof (induction c n b rule: chain_scan.induct)
  case (1 c n b)
  then show ?case
    by (cases "isTypeAssertionExpression c")
      (auto simp: chain_scan.simps [of c] assertion_chain.simps [of c])
qed

lemma forbidden_chain_iff:
  "isForbiddenAssertionChain c \<longleftrightarrow>
     length (assertion_chain c) > 1 \<and> \<not> list_all isConstAssertion (assertion_chain c)"
  by (simp add: isForbiddenAssertionChain_def chain_scan_eq)

lemma outermost_unwrap:
  "isOutermostAssertionInChain (unwrapParenthesizedExpression c) = isOutermostAssertionInChain c"
proof -
  have "isOutermostAssertionInChain
      (unwrap_while (\<lambda>c. kind c = ''ParenthesizedExpression'') ''expression'' c) =
    isOutermostAssertionInChain c"
  proof (induction "\<lambda>c. kind c = ''ParenthesizedExpression''" "''expression''" c
      rule: unwrap_while.induct)
    case (1 c)
    show ?case
    proof (cases "focus c \<noteq> Absent \<and> kind c = ''ParenthesizedExpression''")
      case True
      then have "isOutermostAssertionInChain (child c ''expression'') = isOutermostAssertionInChain c"
        by (simp add: isOutermostAssertionInChain_def)
      with True 1 show ?thesis by (simp add: unwrap_while_step)
    qed (auto simp: unwrap_while.simps [of _ _ c])
  qed
  then show ?thesis by (simp add: unwrapParenthesizedExpression_def)
qed

lemma asserted_not_outermost:
  assumes "isTypeAssertionExpression c"
  shows "\<not> isOutermostAssertionInChain (unwrapParenthesizedExpression (child c ''expression''))"
proof -
  have "\<not> isOutermostAssertionInChain (child c ''expression'')"
    using assms by (auto simp: isOutermostAssertionInChain_def isTypeAssertionExpression_def)
  then show ?thesis by (simp add: outermost_unwrap)
qed

lemma chain_inner_not_outermost:
  "d \<in> set (assertion_chain c) \<Longrightarrow> d = c \<or> \<not> isOutermostAssertionInChain d"
proof (induction c rule: assertion_chain.induct)
  case (1 c)
  then show ?case
    using asserted_not_outermost [of c]
    by (cases "isTypeAssertionExpression c") (auto simp: assertion_chain.simps [of c])
qed

lemma chain_head: "isTypeAssertionExpression c \<Longrightarrow> \<exists>ds. assertion_chain c = c # ds"
  by (simp add: assertion_chain.simps [of c])

lemma chain_smaller: "d \<in> set (assertion_chain c) \<Longrightarrow> size (focus d) \<le> size (focus c)"
proof (induction c rule: assertion_chain.induct)
  case (1 c)
  then show ?case
    using asserted_smaller [of c]
    by (cases "isTypeAssertionExpression c") (fastforce simp: assertion_chain.simps [of c])+
qed

text \<open>\<^verbatim>\<open>((x as unknown) as Foo)\<close>\<close>

definition assertion_node :: "node \<Rightarrow> node \<Rightarrow> node" where
  "assertion_node e t =
     nd ''TSAsExpression'' [(''expression'', Child e), (''typeAnnotation'', Child t)]"

definition double_assertion :: cursor where
  "double_assertion = Cursor (assertion_node
     (nd ''ParenthesizedExpression'' [(''expression'', Child
        (assertion_node (ident ''x'') (nd ''TSUnknownKeyword'' [])))])
     (type_ref ''Foo'' [])) []"

subsection \<open>Properties\<close>

text \<open>
  C9: of the assertions that form one chain, from its outermost assertion inwards through any
  parentheses, exactly one is reported, the outermost, when the chain has at least two
  assertions and one of them is not a const assertion; otherwise none is.
\<close>

theorem chain_reported_once:
  assumes "isTypeAssertionExpression c" and "isOutermostAssertionInChain c"
  shows "concat (map checkTypeAssertion (assertion_chain c)) =
    (if length (assertion_chain c) > 1 \<and> (\<exists>d \<in> set (assertion_chain c). \<not> isConstAssertion d)
     then [\<lparr>rnode = c, messageId = ''chained'', rdata = []\<rparr>] else [])"
proof -
  let ?e = "unwrapParenthesizedExpression (child c ''expression'')"
  have chain: "assertion_chain c = c # assertion_chain ?e"
    using assms(1) by (simp add: assertion_chain.simps [of c])
  have "checkTypeAssertion d = []" if "d \<in> set (assertion_chain ?e)" for d
  proof -
    have "size (focus d) < size (focus c)"
      using chain_smaller [OF that] asserted_smaller [OF assms(1)] by simp
    with that chain chain_inner_not_outermost [of d c] show ?thesis
      by (auto simp: checkTypeAssertion_def)
  qed
  then have "concat (map checkTypeAssertion (assertion_chain ?e)) = []" by simp
  with chain assms(2) show ?thesis
    by (auto simp: checkTypeAssertion_def forbidden_chain_iff list_all_iff)
qed

theorem chain_reported_once_witness:
  "length (assertion_chain double_assertion) = 2 \<and>
   concat (map checkTypeAssertion (assertion_chain double_assertion)) =
     [\<lparr>rnode = double_assertion, messageId = ''chained'', rdata = []\<rparr>]"
proof -
  have "isTypeAssertionExpression double_assertion" "isOutermostAssertionInChain double_assertion"
    and "length (assertion_chain double_assertion) = 2"
    "\<exists>d \<in> set (assertion_chain double_assertion). \<not> isConstAssertion d" by code_simp+
  then show ?thesis using chain_reported_once [of double_assertion] by simp
qed

end
