(* ===== verification/Safety_Comments.thy ===== *)
theory Safety_Comments
  imports Assertions
begin

text \<open>
  The rule \<^verbatim>\<open>require-safety-comment-for-type-assertion\<close>: every type assertion that is not a const
  assertion needs a comment with a marker, a colon and some text before it or before one of the
  nodes around it.

  The rule builds a regular expression from the configured markers and keeps it in a map under
  the joined markers; the map is the state of the listener. A pattern is the text of the
  alternatives, which are the escaped markers with bars between them; \<open>pattern_test\<close> reads that
  text and is the search of \<^verbatim>\<open>(?:^|[^\p{L}\p{N}_])(?:alternatives)\s*:\s*\S\<close>.
\<close>

definition DEFAULT_SAFETY_MARKERS :: "string list" where
  "DEFAULT_SAFETY_MARKERS = [''SAFETY'']"

definition commentOwnerKinds :: "string list" where
  "commentOwnerKinds =
     [''ExpressionStatement'', ''PropertyDefinition'', ''ReturnStatement'', ''ThrowStatement'',
      ''VariableDeclaration'']"

definition isConstTypeAssertion :: "cursor \<Rightarrow> bool" where
  "isConstTypeAssertion node \<longleftrightarrow>
     kind (child node ''typeAnnotation'') = ''TSTypeReference'' \<and>
     kind (child (child node ''typeAnnotation'') ''typeName'') = ''Identifier'' \<and>
     identifier_name (child (child node ''typeAnnotation'') ''typeName'') = ''const''"

subsection \<open>Markers\<close>

fun configured_marker :: "json \<Rightarrow> string list" where
  "configured_marker (JStr marker) = (if length (trim marker) > 0 then [trim marker] else [])"
| "configured_marker _ = []"

definition configuredSafetyMarkers :: "json option \<Rightarrow> string list" where
  "configuredSafetyMarkers option =
     (case option of
        Some (JObj fs) \<Rightarrow>
          (case map_of fs ''markers'' of
             Some (JArr configured) \<Rightarrow>
               let markers = concat (map configured_marker configured) in
               if length markers > 0 then markers else DEFAULT_SAFETY_MARKERS
           | _ \<Rightarrow> DEFAULT_SAFETY_MARKERS)
      | _ \<Rightarrow> DEFAULT_SAFETY_MARKERS)"

text \<open>The characters that the class \<^verbatim>\<open>[.*+?^${}()|[\]\\]\<close> escapes; 0x5C is the backslash.\<close>

definition escaped_char :: "char \<Rightarrow> bool" where
  "escaped_char ch \<longleftrightarrow> ch \<in> set ''.*+?^${}()|[]'' \<or> ch = CHR 0x5C"

definition escape_marker :: "string \<Rightarrow> string" where
  "escape_marker marker =
     concat (map (\<lambda>ch. if escaped_char ch then [CHR 0x5C, ch] else [ch]) marker)"

type_synonym pattern = string

fun join_alternatives :: "string list \<Rightarrow> string" where
  "join_alternatives [] = []"
| "join_alternatives [t] = t"
| "join_alternatives (t # u # ts) = t @ CHR ''|'' # join_alternatives (u # ts)"

definition markerPattern :: "string list \<Rightarrow> pattern" where
  "markerPattern markers = join_alternatives (map escape_marker markers)"

definition justification_follows :: "string \<Rightarrow> bool" where
  "justification_follows s =
     (case dropWhile js_space s of
        [] \<Rightarrow> False
      | ch # t \<Rightarrow> ch = CHR '':'' \<and> dropWhile js_space t \<noteq> [])"

definition alternative_at :: "pattern \<Rightarrow> string \<Rightarrow> bool" where
  "alternative_at pattern s =
     (case read_alternatives pattern of
        None \<Rightarrow> False
      | Some alternatives \<Rightarrow>
          list_ex (\<lambda>t. startsWith s t \<and> justification_follows (drop (length t) s)) alternatives)"

fun after_boundary :: "pattern \<Rightarrow> string \<Rightarrow> bool" where
  "after_boundary pattern [] = False"
| "after_boundary pattern (ch # s) =
     ((\<not> word_char ch \<and> alternative_at pattern s) \<or> after_boundary pattern s)"

definition pattern_test :: "pattern \<Rightarrow> string \<Rightarrow> bool" where
  "pattern_test pattern s \<longleftrightarrow> alternative_at pattern s \<or> after_boundary pattern s"

subsection \<open>The search for a comment\<close>

definition hasSafetyJustificationBefore ::
    "source_code \<Rightarrow> cursor \<Rightarrow> cursor \<Rightarrow> pattern \<Rightarrow> bool" where
  "hasSafetyJustificationBefore sc owner assertion pattern =
     list_ex (\<lambda>c. comment_end c \<le> startp assertion \<and> pattern_test pattern (comment_value c))
       (getCommentsBefore sc owner)"

fun safety_walk :: "source_code \<Rightarrow> cursor \<Rightarrow> pattern \<Rightarrow> cursor \<Rightarrow> cursor list \<Rightarrow> bool" where
  "safety_walk sc node pattern current [] =
     (hasSafetyJustificationBefore sc current node pattern)"
| "safety_walk sc node pattern current (p # rest) =
     (if hasSafetyJustificationBefore sc current node pattern then True
      else if kind current \<in> set commentOwnerKinds
      then kind p = ''ExportNamedDeclaration'' \<and> child p ''declaration'' = current \<and>
           hasSafetyJustificationBefore sc p node pattern
      else if kind p = ''Program'' then False
      else safety_walk sc node pattern p rest)"

definition hasSafetyComment :: "source_code \<Rightarrow> cursor \<Rightarrow> pattern \<Rightarrow> bool" where
  "hasSafetyComment sc node pattern = safety_walk sc node pattern node (ancestors node)"

subsection \<open>The rule\<close>

type_synonym pattern_cache = "string \<Rightarrow> pattern option"

fun join_markers :: "string list \<Rightarrow> string" where
  "join_markers [] = []"
| "join_markers [m] = m"
| "join_markers (m # n # ms) = m @ CHR 0x00 # join_markers (n # ms)"

definition missing_comment :: "cursor \<Rightarrow> string list \<Rightarrow> report" where
  "missing_comment node markers =
     \<lparr>rnode = node, messageId = ''missingSafetyComment'',
      rdata = [(''marker'', case markers of [] \<Rightarrow> hd DEFAULT_SAFETY_MARKERS | m # _ \<Rightarrow> m)]\<rparr>"

definition checkAssertion :: "json option \<Rightarrow> pattern_cache listener" where
  "checkAssertion option sc node patterns =
     (if isConstTypeAssertion node then Some (patterns, [])
      else let markers = configuredSafetyMarkers option;
               patternKey = join_markers markers;
               pattern = (case patterns patternKey of Some p \<Rightarrow> p | None \<Rightarrow> markerPattern markers);
               patterns' = patterns(patternKey \<mapsto> pattern)
           in if hasSafetyComment sc node pattern then Some (patterns', [])
              else Some (patterns', [missing_comment node markers]))"

definition requireSafetyCommentRule :: "json option \<Rightarrow> pattern_cache listener" where
  "requireSafetyCommentRule option sc node patterns =
     (if kind node = ''TSAsExpression'' \<or> kind node = ''TSTypeAssertion''
      then checkAssertion option sc node patterns else Some (patterns, []))"

subsection \<open>Escaping\<close>

text \<open>
  Escaping leaves no character with a meaning in patterns: the alternatives read back are the
  markers themselves, and a list without markers is read as one empty alternative.
\<close>

lemma escaped_char_syntax: "escaped_char ch \<longleftrightarrow> ch \<in> set SyntaxCharacter"
  by (auto simp: escaped_char_def SyntaxCharacter_def)

lemma read_escape:
  "read_alternatives s \<noteq> Some [] \<Longrightarrow>
   read_alternatives (escape_marker m @ s) = map_option (\<lambda>ts. (m @ hd ts) # tl ts) (read_alternatives s)"
proof (induction m)
  case Nil
  then show ?case
    by (cases "read_alternatives s") (auto simp: escape_marker_def neq_Nil_conv)
next
  case (Cons ch m)
  have "CHR ''|'' \<in> set SyntaxCharacter" "CHR 0x5C \<in> set SyntaxCharacter"
    by (simp_all add: SyntaxCharacter_def)
  then show ?case
    using Cons
    by (cases "ch \<in> set SyntaxCharacter")
      (auto simp: escape_marker_def escaped_char_syntax option.map_comp comp_def)
qed

lemma read_alternatives_nonempty: "read_alternatives s \<noteq> Some []"
  by (induction s rule: read_alternatives.induct) (auto split: list.splits)

lemma read_marker_pattern:
  "read_alternatives (markerPattern ms) = Some (if ms = [] then [[]] else ms)"
proof -
  have "ms \<noteq> [] \<Longrightarrow> read_alternatives (join_alternatives (map escape_marker ms)) = Some ms"
  proof (induction ms rule: join_alternatives.induct)
    case (2 m)
    show ?case using read_escape [OF read_alternatives_nonempty, of m "[]"] by simp
  next
    case (3 m n ms)
    then show ?case using read_escape [OF read_alternatives_nonempty, of m] by simp
  qed simp
  then show ?thesis by (simp add: markerPattern_def)
qed

subsection \<open>What a pattern matches\<close>

text \<open>A marker may start a text or follow a character that is not part of a word.\<close>

definition at_boundary :: "string \<Rightarrow> bool" where
  "at_boundary before = (case rev before of [] \<Rightarrow> True | ch # _ \<Rightarrow> \<not> word_char ch)"

lemma justification_iff:
  "justification_follows s \<longleftrightarrow>
     (\<exists>ws ws' x rest. s = ws @ CHR '':'' # ws' @ x # rest \<and>
        list_all js_space ws \<and> list_all js_space ws' \<and> \<not> js_space x)"
proof -
  have colon: "\<not> js_space CHR '':''" by (simp add: js_space_def)
  have "justification_follows s \<longleftrightarrow>
      (\<exists>t. dropWhile js_space s = CHR '':'' # t \<and> (\<exists>x rest. dropWhile js_space t = x # rest))"
    unfolding justification_follows_def
    by (cases "dropWhile js_space s") (auto simp: neq_Nil_conv simp del: dropWhile_eq_Nil_conv)
  also have "\<dots> \<longleftrightarrow> (\<exists>ws ws' x rest. s = ws @ CHR '':'' # ws' @ x # rest \<and>
        list_all js_space ws \<and> list_all js_space ws' \<and> \<not> js_space x)"
    using colon unfolding dropWhile_Cons_iff by blast
  finally show ?thesis .
qed

lemma alternative_iff:
  "alternative_at (markerPattern ms) s \<longleftrightarrow>
     (\<exists>m \<in> set (if ms = [] then [[]] else ms). \<exists>rest. s = m @ rest \<and> justification_follows rest)"
proof -
  have "startsWith s m \<and> justification_follows (drop (length m) s) \<longleftrightarrow>
      (\<exists>rest. s = m @ rest \<and> justification_follows rest)" for m
    by (auto simp: startsWith_iff)
  then show ?thesis by (simp add: alternative_at_def read_marker_pattern list_ex_iff)
qed

lemma after_boundary_iff:
  "after_boundary pat s \<longleftrightarrow>
     (\<exists>before ch rest. s = before @ ch # rest \<and> \<not> word_char ch \<and> alternative_at pat rest)"
proof (induction s)
  case (Cons c s)
  have "(\<exists>before ch rest. c # s = before @ ch # rest \<and> \<not> word_char ch \<and> alternative_at pat rest) \<longleftrightarrow>
     (\<not> word_char c \<and> alternative_at pat s) \<or>
     (\<exists>before ch rest. s = before @ ch # rest \<and> \<not> word_char ch \<and> alternative_at pat rest)"
    by (auto simp: Cons_eq_append_conv)
  with Cons show ?case by simp
qed simp

lemma pattern_test_boundary:
  "pattern_test pat s \<longleftrightarrow> (\<exists>before rest. s = before @ rest \<and> at_boundary before \<and> alternative_at pat rest)"
proof -
  have "(\<exists>before rest. s = before @ rest \<and> at_boundary before \<and> alternative_at pat rest) \<longleftrightarrow>
      alternative_at pat s \<or>
      (\<exists>before ch rest. s = (before @ [ch]) @ rest \<and> \<not> word_char ch \<and> alternative_at pat rest)"
    (is "?L = ?R")
  proof
    assume ?L
    then obtain before rest where b: "s = before @ rest" "at_boundary before" "alternative_at pat rest"
      by blast
    then show ?R
      by (cases before rule: rev_cases) (auto simp: at_boundary_def)
  next
    assume ?R
    moreover have "at_boundary []" and "\<And>b ch. \<not> word_char ch \<Longrightarrow> at_boundary (b @ [ch])"
      by (simp_all add: at_boundary_def)
    ultimately show ?L by (metis append_Nil)
  qed
  then show ?thesis by (simp add: pattern_test_def after_boundary_iff)
qed

subsection \<open>The pattern cache\<close>

definition nul_free :: "string list \<Rightarrow> bool" where
  "nul_free ms \<longleftrightarrow> ms \<noteq> [] \<and> list_all (\<lambda>m. CHR 0x00 \<notin> set m) ms"

lemma append_nul_eq:
  "CHR 0x00 \<notin> set a \<Longrightarrow> CHR 0x00 \<notin> set b \<Longrightarrow> a @ CHR 0x00 # s = b @ CHR 0x00 # t \<Longrightarrow> a = b \<and> s = t"
  by (induction a arbitrary: b) (case_tac b; auto)+

lemma join_inject: "nul_free ms \<Longrightarrow> nul_free ns \<Longrightarrow> join_markers ms = join_markers ns \<Longrightarrow> ms = ns"
proof (induction ms arbitrary: ns rule: join_markers.induct)
  case (2 m)
  then show ?case by (cases ns rule: join_markers.cases) (auto simp: nul_free_def)
next
  case (3 m n ms)
  show ?case
  proof (cases ns rule: join_markers.cases)
    case (3 m' n' ns')
    with "3.prems" have "m = m' \<and> join_markers (n # ms) = join_markers (n' # ns')"
      by (intro append_nul_eq) (auto simp: nul_free_def)
    with "3.prems" 3 "3.IH" [of "n' # ns'"] show ?thesis by (auto simp: nul_free_def)
  qed (use "3.prems" in \<open>auto simp: nul_free_def\<close>)
qed (simp add: nul_free_def)

definition patterns_ok :: "pattern_cache \<Rightarrow> bool" where
  "patterns_ok patterns \<longleftrightarrow>
     (\<forall>ms p. nul_free ms \<longrightarrow> patterns (join_markers ms) = Some p \<longrightarrow> p = markerPattern ms)"

text \<open>What the rule reports on an assertion when the pattern is built anew each time.\<close>

definition uncached_reports :: "json option \<Rightarrow> source_code \<Rightarrow> cursor \<Rightarrow> report list" where
  "uncached_reports option sc node =
     (let markers = configuredSafetyMarkers option in
      if (kind node = ''TSAsExpression'' \<or> kind node = ''TSTypeAssertion'') \<and>
         \<not> isConstTypeAssertion node \<and> \<not> hasSafetyComment sc node (markerPattern markers)
      then [missing_comment node markers] else [])"

lemma rule_step:
  assumes "patterns_ok patterns" and "nul_free (configuredSafetyMarkers option)"
  shows "\<exists>patterns'. requireSafetyCommentRule option sc node patterns =
    Some (patterns', uncached_reports option sc node) \<and> patterns_ok patterns'"
proof -
  let ?ms = "configuredSafetyMarkers option"
  let ?p = "case patterns (join_markers ?ms) of Some p \<Rightarrow> p | None \<Rightarrow> markerPattern ?ms"
  have p: "?p = markerPattern ?ms"
    using assms by (auto simp: patterns_ok_def split: option.split)
  have "patterns_ok (patterns(join_markers ?ms \<mapsto> markerPattern ?ms))"
    using assms join_inject [of _ ?ms] by (auto simp: patterns_ok_def)
  with assms(1) p show ?thesis
    by (simp add: requireSafetyCommentRule_def checkAssertion_def uncached_reports_def Let_def)
qed

lemma rule_run:
  assumes "patterns_ok patterns" and "nul_free (configuredSafetyMarkers option)"
  shows "\<exists>patterns'. run_listener (requireSafetyCommentRule option) sc cs patterns =
    Some (patterns', concat (map (uncached_reports option sc) cs)) \<and> patterns_ok patterns'"
  using assms(1)
proof (induction cs arbitrary: patterns)
  case (Cons c cs)
  obtain patterns' where "requireSafetyCommentRule option sc c patterns =
      Some (patterns', uncached_reports option sc c)" "patterns_ok patterns'"
    using rule_step [OF Cons.prems assms(2)] by blast
  with Cons.IH [of patterns'] show ?case by auto
qed simp

subsection \<open>Where a comment is looked for\<close>

text \<open>
  The nodes before which the rule looks for a comment: the assertion and what is around it
  below the program, up to the first node of an owner kind, and an export of that node.
\<close>

definition owner_kind :: "cursor \<Rightarrow> bool" where
  "owner_kind c \<longleftrightarrow>
     kind c \<in> {''ExpressionStatement'', ''PropertyDefinition'', ''ReturnStatement'', ''ThrowStatement'',
       ''VariableDeclaration''}"

definition exported_by :: "cursor \<Rightarrow> cursor list \<Rightarrow> cursor list" where
  "exported_by c outer =
     (case outer of
        [] \<Rightarrow> []
      | p # _ \<Rightarrow> if kind p = ''ExportNamedDeclaration'' \<and> child p ''declaration'' = c then [p] else [])"

definition comment_places :: "cursor \<Rightarrow> cursor list" where
  "comment_places node =
     (let path = node # below_program (ancestors node) in
      takeWhile (Not \<circ> owner_kind) path @
      (case dropWhile (Not \<circ> owner_kind) path of
         [] \<Rightarrow> [] | owner # outer \<Rightarrow> owner # exported_by owner outer))"

lemma owner_kinds: "kind c \<in> set commentOwnerKinds \<longleftrightarrow> owner_kind c"
  by (simp add: commentOwnerKinds_def owner_kind_def)

lemma safety_walk_places:
  "safety_walk sc node pat current outer \<longleftrightarrow>
     (let path = current # below_program outer in
      \<exists>place \<in> set (takeWhile (Not \<circ> owner_kind) path @
        (case dropWhile (Not \<circ> owner_kind) path of
           [] \<Rightarrow> [] | owner # outer \<Rightarrow> owner # exported_by owner outer)).
        hasSafetyJustificationBefore sc place node pat)"
proof (induction outer arbitrary: current)
  case Nil
  then show ?case by (simp add: exported_by_def)
next
  case (Cons p outer)
  show ?case
  proof (cases "owner_kind current \<or> kind p = ''Program''")
    case True
    then show ?thesis by (auto simp: owner_kinds exported_by_def)
  next
    case False
    then show ?thesis using Cons.IH [of p] by (simp add: owner_kinds)
  qed
qed

lemma comment_search:
  "hasSafetyComment sc node pat \<longleftrightarrow>
     (\<exists>place \<in> set (comment_places node). hasSafetyJustificationBefore sc place node pat)"
  unfolding hasSafetyComment_def comment_places_def safety_walk_places by (simp add: Let_def)






subsection \<open>Properties\<close>

text \<open>
  C12: the pattern built from a list of markers matches a comment exactly when the comment
  contains one of the markers literally, whatever characters it has, at its start or after a
  character that is not part of a word, followed by optional space, a colon, optional space and
  some text. For an empty list the empty text counts as the marker.
\<close>

theorem marker_pattern_matches:
  "pattern_test (markerPattern markers) s \<longleftrightarrow>
     (\<exists>before marker ws ws' x rest.
        s = before @ marker @ ws @ CHR '':'' # ws' @ x # rest \<and>
        marker \<in> set (if markers = [] then [[]] else markers) \<and>
        at_boundary before \<and> list_all js_space ws \<and> list_all js_space ws' \<and> js_space x = False)"
proof -
  let ?ms = "if markers = [] then [[]] else markers"
  have "pattern_test (markerPattern markers) s \<longleftrightarrow>
      (\<exists>before. at_boundary before \<and> (\<exists>marker \<in> set ?ms. \<exists>rest.
         s = before @ marker @ rest \<and> justification_follows rest))"
    unfolding pattern_test_boundary alternative_iff by blast
  also have "\<dots> \<longleftrightarrow> (\<exists>before marker ws ws' x rest.
        s = before @ marker @ ws @ CHR '':'' # ws' @ x # rest \<and> marker \<in> set ?ms \<and>
        at_boundary before \<and> list_all js_space ws \<and> list_all js_space ws' \<and> \<not> js_space x)"
    unfolding justification_iff by blast
  finally show ?thesis by simp
qed

text \<open>
  C14: the map of compiled patterns is transparent: for markers without a NUL character, any run
  of the rule that starts from a coherent map reports what it would report with the pattern
  built anew for every assertion, and leaves the map coherent.
\<close>

theorem pattern_cache_transparent:
  assumes "patterns_ok patterns" and "nul_free (configuredSafetyMarkers option)"
  shows "\<exists>patterns'. run_listener (requireSafetyCommentRule option) sc cs patterns =
    Some (patterns', concat (map (uncached_reports option sc) cs)) \<and> patterns_ok patterns'"
  using assms by (rule rule_run)

theorem pattern_cache_transparent_witness:
  "\<exists>patterns'. run_listener (requireSafetyCommentRule (Some (JObj [(''markers'', JArr [JStr ''A+B''])])))
      example_source [double_assertion] (\<lambda>_. None) =
    Some (patterns', concat (map (uncached_reports (Some (JObj [(''markers'', JArr [JStr ''A+B''])]))
      example_source) [double_assertion])) \<and> patterns_ok patterns'"
proof (rule pattern_cache_transparent)
  show "patterns_ok (\<lambda>_. None)" by (simp add: patterns_ok_def)
  show "nul_free (configuredSafetyMarkers (Some (JObj [(''markers'', JArr [JStr ''A+B''])])))"
    by code_simp
qed

text \<open>
  C13: an assertion is justified exactly when a comment that ends before it and matches the
  pattern stands before one of these nodes: the assertion and the nodes around it, below the
  program, up to and including the first that is an expression statement, a return or throw
  statement, a variable declaration or a class property; and the export of that first one.
  Other statements, blocks, loops and functions do not end the search.
\<close>

theorem safety_comment_search:
  "hasSafetyComment sc node pat \<longleftrightarrow>
     (\<exists>place \<in> set (comment_places node). \<exists>c \<in> set (getCommentsBefore sc place).
        comment_end c \<le> startp node \<and> pattern_test pat (comment_value c))"
  by (simp add: comment_search hasSafetyJustificationBefore_def list_ex_iff)



end
