(* ===== verification/Expression_Rules.thy ===== *)
theory Expression_Rules
  imports Lint_Context
begin

text \<open>
  The rules that look at one expression and the variables it names:
  \<^verbatim>\<open>no-conditional-empty-object-spread\<close>, \<^verbatim>\<open>no-reflect-apply\<close> and \<^verbatim>\<open>no-reflect-get\<close> (on
  \<^verbatim>\<open>shared/reflect-method.ts\<close>), \<^verbatim>\<open>no-module-mocking\<close>, \<^verbatim>\<open>no-runtime-typeof\<close> and
  \<^verbatim>\<open>no-shape-in-symbol-names\<close>.
\<close>

definition simple_report :: "cursor \<Rightarrow> string \<Rightarrow> report" where
  "simple_report node message = \<lparr>rnode = node, messageId = message, rdata = []\<rparr>"

subsection \<open>no-conditional-empty-object-spread\<close>

definition unwrapParentheses :: "cursor \<Rightarrow> cursor" where
  "unwrapParentheses node =
     unwrap_while (\<lambda>c. kind c = ''ParenthesizedExpression'') ''expression'' node"

definition isEmptyObjectExpression :: "cursor \<Rightarrow> bool" where
  "isEmptyObjectExpression node \<longleftrightarrow>
     kind node = ''ObjectExpression'' \<and> length (elems node ''properties'') = 0"

definition isConditionalEmptyObjectSpread :: "cursor \<Rightarrow> bool" where
  "isConditionalEmptyObjectSpread node =
     (let conditional = unwrapParentheses node in
      kind conditional = ''ConditionalExpression'' \<and>
      (isEmptyObjectExpression (child conditional ''consequent'') \<or>
       isEmptyObjectExpression (child conditional ''alternate'')))"

definition noConditionalEmptyObjectSpreadRule :: "unit listener" where
  "noConditionalEmptyObjectSpreadRule =
     stateless (\<lambda>sc node.
       if kind node \<noteq> ''SpreadElement'' then []
       else if \<not> kind_is (parent node) ''ObjectExpression'' then []
       else if isConditionalEmptyObjectSpread (child node ''argument'')
       then [simple_report node ''avoid''] else [])"

subsection \<open>Static member names\<close>

text \<open>\<^verbatim>\<open>"property" in callee && "object" in callee && "computed" in callee\<close>\<close>

definition member_like :: "cursor \<Rightarrow> bool" where
  "member_like callee \<longleftrightarrow>
     has_prop callee ''property'' \<and> has_prop callee ''object'' \<and> has_prop callee ''computed''"

definition unsupported_callee :: "cursor \<Rightarrow> bool" where
  "unsupported_callee callee \<longleftrightarrow>
     kind callee = ''Super'' \<or> kind callee = ''V8IntrinsicExpression''"

subsection \<open>Reflect\<close>

definition isGlobalReflect :: "source_code \<Rightarrow> cursor \<Rightarrow> bool" where
  "isGlobalReflect sc expression =
     (if kind expression \<noteq> ''Identifier'' \<or> identifier_name expression \<noteq> ''Reflect'' then False
      else if isGlobalReference sc expression then True
      else case resolveVariable sc expression of
             None \<Rightarrow> True
           | Some v \<Rightarrow> length (var_defs v) = 0)"

definition isGlobalReflectMethodCall :: "source_code \<Rightarrow> cursor \<Rightarrow> string \<Rightarrow> bool" where
  "isGlobalReflectMethodCall sc callee methodName =
     (if \<not> member_like callee then False
      else if \<not> isGlobalReflect sc (child callee ''object'') then False
      else let property = child callee ''property'' in
           if flag_of callee ''computed''
           then kind property = ''Literal'' \<and> prim_of property ''value'' = Some (PStr methodName)
           else kind property = ''Identifier'' \<and> identifier_name property = methodName)"

definition noReflectApply_CallExpression :: "source_code \<Rightarrow> cursor \<Rightarrow> report list" where
  "noReflectApply_CallExpression sc node =
     (if unsupported_callee (child node ''callee'') then []
      else if isGlobalReflectMethodCall sc (child node ''callee'') ''apply''
      then [simple_report node ''reflectApply''] else [])"

definition noReflectApplyRule :: "unit listener" where
  "noReflectApplyRule =
     stateless (\<lambda>sc node.
       if kind node = ''CallExpression'' then noReflectApply_CallExpression sc node else [])"

definition noReflectGet_CallExpression :: "source_code \<Rightarrow> cursor \<Rightarrow> report list" where
  "noReflectGet_CallExpression sc node =
     (if unsupported_callee (child node ''callee'') then []
      else if isGlobalReflectMethodCall sc (child node ''callee'') ''get''
      then [simple_report node ''reflectGet''] else [])"

definition noReflectGetRule :: "unit listener" where
  "noReflectGetRule =
     stateless (\<lambda>sc node.
       if kind node = ''CallExpression'' then noReflectGet_CallExpression sc node else [])"

subsection \<open>no-module-mocking\<close>

definition moduleMockMethods :: "string list" where
  "moduleMockMethods = [''doMock'', ''mock'', ''unstable_mockModule'']"

definition importedName :: "cursor \<Rightarrow> string option" where
  "importedName node =
     (if kind node \<noteq> ''ImportSpecifier'' then None
      else let imported = child node ''imported'' in
           Some (if kind imported = ''Identifier'' then identifier_name imported
                 else str_of imported ''value''))"

definition framework_import :: "var_definition \<Rightarrow> bool" where
  "framework_import d =
     (if def_type d \<noteq> ''ImportBinding'' \<or> \<not> kind_is (def_parent d) ''ImportDeclaration'' then False
      else let source = str_of (child (the (def_parent d)) ''source'') ''value'';
               name = importedName (def_node d)
           in (source = ''vitest'' \<and> name = Some ''vi'') \<or>
              (source = ''@jest/globals'' \<and> name = Some ''jest''))"

definition isTestFrameworkObject :: "source_code \<Rightarrow> cursor \<Rightarrow> bool" where
  "isTestFrameworkObject sc expression =
     (let framework_name =
        (identifier_name expression = ''vi'' \<or> identifier_name expression = ''jest'') in
      if kind expression \<noteq> ''Identifier'' then False
      else if framework_name \<and> isGlobalReference sc expression then True
      else case resolveVariable sc expression of
             None \<Rightarrow> framework_name
           | Some v \<Rightarrow>
               if length (var_defs v) = 0 then framework_name
               else list_ex framework_import (var_defs v))"

definition mock_method :: "cursor \<Rightarrow> string option" where
  "mock_method callee =
     (let property = child callee ''property'' in
      if flag_of callee ''computed''
      then (if kind property = ''Literal''
            then (case prim_of property ''value'' of
                    Some (PStr s) \<Rightarrow>
                      if s = ''doMock'' \<or> s = ''mock'' \<or> s = ''unstable_mockModule''
                      then Some s else None
                  | _ \<Rightarrow> None)
            else None)
      else if kind property = ''Identifier'' then Some (identifier_name property) else None)"

definition moduleMockCall :: "source_code \<Rightarrow> cursor \<Rightarrow> bool" where
  "moduleMockCall sc callee =
     (if \<not> member_like callee then False
      else if \<not> isTestFrameworkObject sc (child callee ''object'') then False
      else case mock_method callee of
             None \<Rightarrow> False
           | Some method \<Rightarrow> method \<in> set moduleMockMethods)"

definition noModuleMocking_CallExpression :: "source_code \<Rightarrow> cursor \<Rightarrow> report list" where
  "noModuleMocking_CallExpression sc node =
     (if unsupported_callee (child node ''callee'') then []
      else if moduleMockCall sc (child node ''callee'')
      then [simple_report node ''moduleMock''] else [])"

definition noModuleMockingRule :: "unit listener" where
  "noModuleMockingRule =
     stateless (\<lambda>sc node.
       if kind node = ''CallExpression'' then noModuleMocking_CallExpression sc node else [])"

subsection \<open>no-runtime-typeof\<close>

definition isRuntimeFunction :: "cursor \<Rightarrow> bool" where
  "isRuntimeFunction node \<longleftrightarrow>
     kind node \<in> {''ArrowFunctionExpression'', ''FunctionDeclaration'', ''FunctionExpression''}"

definition returns_predicate :: "cursor \<Rightarrow> bool" where
  "returns_predicate f \<longleftrightarrow>
     kind (child (child f ''returnType'') ''typeAnnotation'') = ''TSTypePredicate''"

fun type_guard_walk :: "cursor list \<Rightarrow> bool" where
  "type_guard_walk [] = False"
| "type_guard_walk (current # rest) =
     (if kind current = ''Program'' then False
      else if isRuntimeFunction current then returns_predicate current
      else type_guard_walk rest)"

definition isInsideTypeGuard :: "cursor \<Rightarrow> bool" where
  "isInsideTypeGuard node = type_guard_walk (ancestors node)"

definition isExistenceProbe :: "cursor \<Rightarrow> bool" where
  "isExistenceProbe node =
     (case parent node of
        None \<Rightarrow> False
      | Some p \<Rightarrow>
          if kind p \<noteq> ''BinaryExpression'' then False
          else if str_of p ''operator'' \<notin> {''==='', ''!=='', ''=='', ''!=''} then False
          else let other = (if child p ''left'' = node then child p ''right'' else child p ''left'')
               in kind other = ''Literal'' \<and> prim_of other ''value'' = Some (PStr ''undefined''))"

definition allow_in_type_guards :: "json option \<Rightarrow> bool" where
  "allow_in_type_guards option =
     (case option of
        Some (JObj fs) \<Rightarrow> map_of fs ''allowInTypeGuards'' = Some (JBool True)
      | _ \<Rightarrow> False)"

definition noRuntimeTypeof_UnaryExpression :: "json option \<Rightarrow> cursor \<Rightarrow> report list" where
  "noRuntimeTypeof_UnaryExpression option node =
     (if str_of node ''operator'' = ''typeof'' \<and> \<not> isExistenceProbe node \<and>
         (\<not> allow_in_type_guards option \<or> \<not> isInsideTypeGuard node)
      then [simple_report node ''runtimeTypeof''] else [])"

definition noRuntimeTypeofRule :: "json option \<Rightarrow> unit listener" where
  "noRuntimeTypeofRule option =
     stateless (\<lambda>sc node.
       if kind node = ''UnaryExpression'' then noRuntimeTypeof_UnaryExpression option node else [])"

subsection \<open>no-shape-in-symbol-names\<close>

definition containsForbiddenSymbolName :: "string \<Rightarrow> bool" where
  "containsForbiddenSymbolName name = includes_str (toLowerCase name) ''shape''"

definition isBorrowedMemberName :: "cursor \<Rightarrow> bool" where
  "isBorrowedMemberName node =
     (case parent node of
        None \<Rightarrow> False
      | Some p \<Rightarrow>
          if kind p \<noteq> ''MemberExpression'' then False
          else child p ''property'' = node \<and> prim_of p ''computed'' = Some (PBool False))"

definition reportForbiddenSymbolName :: "cursor \<Rightarrow> report list" where
  "reportForbiddenSymbolName node =
     (if \<not> containsForbiddenSymbolName (identifier_name node) \<or> isBorrowedMemberName node then []
      else [\<lparr>rnode = node, messageId = ''forbiddenSymbolName'',
             rdata = [(''name'', identifier_name node)]\<rparr>])"

definition noForbiddenTermInSymbolNamesRule :: "unit listener" where
  "noForbiddenTermInSymbolNamesRule =
     stateless (\<lambda>sc node.
       if kind node \<in> {''Identifier'', ''PrivateIdentifier'', ''JSXIdentifier''}
       then reportForbiddenSymbolName node else [])"

subsection \<open>Loops\<close>

lemma type_guard_walk_find:
  "type_guard_walk cs =
     (case find isRuntimeFunction (below_program cs) of
        None \<Rightarrow> False | Some f \<Rightarrow> returns_predicate f)"
  by (induction cs) auto

lemma lower_char_idem: "lower_char (lower_char ch) = lower_char ch"
proof (cases "65 \<le> (of_char ch :: nat) \<and> (of_char ch :: nat) \<le> 90 \<or>
    192 \<le> (of_char ch :: nat) \<and> (of_char ch :: nat) \<le> 222 \<and> (of_char ch :: nat) \<noteq> 215")
  case True
  then have "(of_char (char_of (of_char ch + 32 :: nat)) :: nat) = of_char ch + 32"
    by (auto simp: of_char_of)
  with True show ?thesis by (auto simp: lower_char_def Let_def)
qed (auto simp: lower_char_def Let_def)

lemma lower_case_idem [simp]: "toLowerCase (toLowerCase s) = toLowerCase s"
  by (simp add: toLowerCase_def lower_char_idem)

lemma lower_case_split:
  "toLowerCase s = u @ t @ v \<longleftrightarrow>
     (\<exists>u' t' v'. s = u' @ t' @ v' \<and> toLowerCase u' = u \<and> toLowerCase t' = t \<and> toLowerCase v' = v)"
proof
  have split: "\<exists>a' b'. x = a' @ b' \<and> a = toLowerCase a' \<and> b = toLowerCase b'"
    if "toLowerCase x = a @ b" for x a b
    using that by (simp add: toLowerCase_def map_eq_append_conv)
  assume "toLowerCase s = u @ t @ v"
  then obtain u' r where u: "s = u' @ r" "u = toLowerCase u'" and r: "toLowerCase r = t @ v"
    using split [of s u "t @ v"] by auto
  from r obtain t' v' where "r = t' @ v'" "t = toLowerCase t'" "v = toLowerCase v'"
    using split [of r t v] by auto
  with u show "\<exists>u' t' v'. s = u' @ t' @ v' \<and> toLowerCase u' = u \<and> toLowerCase t' = t \<and> toLowerCase v' = v"
    by auto
qed (auto simp: toLowerCase_def)

text \<open>\<^verbatim>\<open>vi.mock()\<close> where \<^verbatim>\<open>vi\<close> is a local constant.\<close>

definition mock_call :: cursor where
  "mock_call = Cursor (nd ''CallExpression'' [(''callee'', Child (nd ''MemberExpression''
     [(''object'', Child (ident ''vi'')), (''property'', Child (ident ''mock'')),
      (''computed'', Prim (PBool False))]))]) []"

definition local_vi_source :: source_code where
  "local_vi_source =
     example_source\<lparr>getScope := \<lambda>_. Scope [''vi'' \<mapsto> cyclic_variable] None\<rparr>"

subsection \<open>Properties\<close>

text \<open>
  C33: the option allowInTypeGuards of no-runtime-typeof removes exactly the reports whose
  nearest enclosing runtime function (below the program) declares a type predicate, and adds
  none: a nested plain function inside a guard is still reported.
\<close>

theorem typeof_option_removes_guards:
  "noRuntimeTypeof_UnaryExpression option node =
     (if allow_in_type_guards option \<and>
         (case find isRuntimeFunction (below_program (ancestors node)) of
            None \<Rightarrow> False | Some f \<Rightarrow> returns_predicate f)
      then [] else noRuntimeTypeof_UnaryExpression None node)"
  by (auto simp: noRuntimeTypeof_UnaryExpression_def isInsideTypeGuard_def type_guard_walk_find
      allow_in_type_guards_def)

text \<open>
  C38: a symbol name is forbidden exactly when some five consecutive characters of it spell
  shape in any mixture of upper and lower case, and case never matters to the decision.
\<close>

theorem forbidden_name_ignores_case:
  "(containsForbiddenSymbolName name \<longleftrightarrow>
      (\<exists>u t v. name = u @ t @ v \<and> toLowerCase t = ''shape'')) \<and>
   containsForbiddenSymbolName (toLowerCase name) = containsForbiddenSymbolName name"
proof
  show "containsForbiddenSymbolName name \<longleftrightarrow>
      (\<exists>u t v. name = u @ t @ v \<and> toLowerCase t = ''shape'')"
    unfolding containsForbiddenSymbolName_def includes_iff lower_case_split by blast
qed (simp add: containsForbiddenSymbolName_def)

text \<open>
  C34: a call on an object that is a declared variable of the program, other than an import of vi
  from vitest or of jest from @jest/globals, is reported by none of no-reflect-apply,
  no-reflect-get and no-module-mocking, even when the variable is named Reflect, vi or jest.
\<close>

theorem declared_object_silent:
  assumes "isGlobalReference sc (child (child node ''callee'') ''object'') = False"
    and "resolveVariable sc (child (child node ''callee'') ''object'') = Some v"
    and "var_defs v \<noteq> []" and "\<forall>d \<in> set (var_defs v). \<not> framework_import d"
  shows "noReflectApply_CallExpression sc node = [] \<and> noReflectGet_CallExpression sc node = [] \<and>
    noModuleMocking_CallExpression sc node = []"
proof -
  let ?o = "child (child node ''callee'') ''object''"
  have "\<not> isGlobalReflect sc ?o" using assms by (simp add: isGlobalReflect_def)
  moreover have "\<not> isTestFrameworkObject sc ?o"
    using assms by (simp add: isTestFrameworkObject_def Let_def list_ex_iff)
  ultimately show ?thesis
    by (simp add: noReflectApply_CallExpression_def noReflectGet_CallExpression_def
        noModuleMocking_CallExpression_def isGlobalReflectMethodCall_def moduleMockCall_def)
qed

theorem declared_object_silent_witness:
  "noModuleMocking_CallExpression example_source mock_call = [simple_report mock_call ''moduleMock''] \<and>
   noModuleMocking_CallExpression local_vi_source mock_call = []"
proof -
  have "isGlobalReference local_vi_source (child (child mock_call ''callee'') ''object'') = False"
    and "resolveVariable local_vi_source (child (child mock_call ''callee'') ''object'') =
      Some cyclic_variable"
    by (simp_all add: local_vi_source_def example_source_def resolveVariable_def mock_call_def
        identifier_name_def tree_simps)
  moreover have "var_defs cyclic_variable \<noteq> []"
    and "\<forall>d \<in> set (var_defs cyclic_variable). \<not> framework_import d" by code_simp+
  moreover have "noModuleMocking_CallExpression example_source mock_call =
      [simple_report mock_call ''moduleMock'']" by code_simp
  ultimately show ?thesis using declared_object_silent by blast
qed

end
