(* ===== verification/Effect_Rules.thy ===== *)
theory Effect_Rules
  imports Expression_Rules
begin

text \<open>
  The opt-in plugin for Effect code: \<^verbatim>\<open>effect/shared/tagged-values.ts\<close> and the rules
  \<^verbatim>\<open>no-manual-effect-error-tag\<close>, \<^verbatim>\<open>no-manual-tag-comparison\<close>, \<^verbatim>\<open>no-manual-tagged-construction\<close>,
  \<^verbatim>\<open>no-service-constructor-imports\<close> and \<^verbatim>\<open>prefer-effect-match\<close>.
\<close>

subsection \<open>Tagged values\<close>

definition equalityOperators :: "string list" where
  "equalityOperators = [''=='', ''==='', ''!='', ''!=='']"

definition broadEffectCatchMethods :: "string list" where
  "broadEffectCatchMethods = [''catch'', ''catchAll'', ''catchIf'']"

definition string_value :: "cursor \<Rightarrow> string option" where
  "string_value c = (case prim_of c ''value'' of Some (PStr s) \<Rightarrow> Some s | _ \<Rightarrow> None)"

definition isStringLiteral :: "cursor \<Rightarrow> bool" where
  "isStringLiteral node \<longleftrightarrow> kind node = ''Literal'' \<and> string_value node \<noteq> None"

text \<open>A member expression with the given static name, written with a dot or with brackets.\<close>

definition static_member :: "string \<Rightarrow> cursor \<Rightarrow> bool" where
  "static_member name node \<longleftrightarrow>
     kind node = ''MemberExpression'' \<and>
     ((\<not> flag_of node ''computed'' \<and> kind (child node ''property'') = ''Identifier'' \<and>
       identifier_name (child node ''property'') = name) \<or>
      (flag_of node ''computed'' \<and> isStringLiteral (child node ''property'') \<and>
       string_value (child node ''property'') = Some name))"

definition isTagMember :: "cursor \<Rightarrow> bool" where
  "isTagMember node = static_member ''_tag'' node"

definition tagMemberFromComparison :: "cursor \<Rightarrow> cursor option" where
  "tagMemberFromComparison node =
     (if str_of node ''operator'' \<notin> set equalityOperators then None
      else if isTagMember (child node ''left'') \<and> isStringLiteral (child node ''right'')
      then Some (child node ''left'')
      else if isTagMember (child node ''right'') \<and> isStringLiteral (child node ''left'')
      then Some (child node ''right'')
      else None)"

text \<open>A callee \<^verbatim>\<open>owner.method\<close> with one of the given methods.\<close>

definition plain_method :: "string \<Rightarrow> string list \<Rightarrow> cursor \<Rightarrow> bool" where
  "plain_method owner methods callee \<longleftrightarrow>
     kind callee = ''MemberExpression'' \<and>
     kind (child callee ''object'') = ''Identifier'' \<and>
     identifier_name (child callee ''object'') = owner \<and>
     \<not> flag_of callee ''computed'' \<and>
     kind (child callee ''property'') = ''Identifier'' \<and>
     identifier_name (child callee ''property'') \<in> set methods"

definition isBroadEffectCatchCall :: "cursor \<Rightarrow> bool" where
  "isBroadEffectCatchCall node \<longleftrightarrow>
     kind node = ''CallExpression'' \<and>
     plain_method ''Effect'' broadEffectCatchMethods (child node ''callee'')"

fun handler_walk :: "cursor list \<Rightarrow> bool" where
  "handler_walk [] = False"
| "handler_walk (current # rest) =
     (if kind current = ''ArrowFunctionExpression'' \<or> kind current = ''FunctionExpression''
      then (case rest of
              [] \<Rightarrow> False
            | p # _ \<Rightarrow> isBroadEffectCatchCall p \<and> current \<in> set (elems p ''arguments''))
      else handler_walk rest)"

definition isInsideBroadEffectHandler :: "cursor \<Rightarrow> bool" where
  "isInsideBroadEffectHandler node = handler_walk (ancestors node)"

definition isReasonTagMember :: "cursor \<Rightarrow> bool" where
  "isReasonTagMember node = static_member ''reason'' (child node ''object'')"

definition propertyName :: "cursor \<Rightarrow> string option" where
  "propertyName property =
     (let key = child property ''key'' in
      if \<not> flag_of property ''computed'' \<and> kind key = ''Identifier'' then Some (identifier_name key)
      else if kind key = ''Literal'' then string_value key
      else None)"

definition isMatchPatternObject :: "cursor \<Rightarrow> bool" where
  "isMatchPatternObject node =
     (case parent node of
        None \<Rightarrow> False
      | Some call \<Rightarrow>
          if kind call \<noteq> ''CallExpression'' \<or> node \<notin> set (elems call ''arguments'') then False
          else plain_method ''Match'' [''when'', ''not''] (child call ''callee''))"

subsection \<open>no-manual-effect-error-tag and no-manual-tag-comparison\<close>

definition errorTag_BinaryExpression :: "cursor \<Rightarrow> report list" where
  "errorTag_BinaryExpression node =
     (case tagMemberFromComparison node of
        None \<Rightarrow> []
      | Some tagMember \<Rightarrow>
          if \<not> isInsideBroadEffectHandler node then []
          else [simple_report node (if isReasonTagMember tagMember then ''reason'' else ''tag'')])"

definition errorTag_SwitchStatement :: "cursor \<Rightarrow> report list" where
  "errorTag_SwitchStatement node =
     (if \<not> isTagMember (child node ''discriminant'') \<or> \<not> isInsideBroadEffectHandler node then []
      else [simple_report node
              (if isReasonTagMember (child node ''discriminant'') then ''reason'' else ''tag'')])"

definition noManualEffectErrorTagRule :: "unit listener" where
  "noManualEffectErrorTagRule =
     stateless (\<lambda>sc node.
       if kind node = ''BinaryExpression'' then errorTag_BinaryExpression node
       else if kind node = ''SwitchStatement'' then errorTag_SwitchStatement node else [])"

definition tagComparison_BinaryExpression :: "cursor \<Rightarrow> report list" where
  "tagComparison_BinaryExpression node =
     (if tagMemberFromComparison node = None \<or> isInsideBroadEffectHandler node then []
      else [simple_report node ''manualComparison''])"

definition tagComparison_SwitchStatement :: "cursor \<Rightarrow> report list" where
  "tagComparison_SwitchStatement node =
     (if \<not> isTagMember (child node ''discriminant'') \<or> isInsideBroadEffectHandler node then []
      else [simple_report node ''manualSwitch''])"

definition noManualTagComparisonRule :: "unit listener" where
  "noManualTagComparisonRule =
     stateless (\<lambda>sc node.
       if kind node = ''BinaryExpression'' then tagComparison_BinaryExpression node
       else if kind node = ''SwitchStatement'' then tagComparison_SwitchStatement node else [])"

subsection \<open>no-manual-tagged-construction\<close>

definition tag_property :: "cursor \<Rightarrow> bool" where
  "tag_property property \<longleftrightarrow>
     kind property = ''Property'' \<and> propertyName property = Some ''_tag'' \<and>
     isStringLiteral (child property ''value'')"

definition taggedConstruction_ObjectExpression :: "cursor \<Rightarrow> report list" where
  "taggedConstruction_ObjectExpression node =
     (if isMatchPatternObject node then []
      else case find tag_property (elems node ''properties'') of
             None \<Rightarrow> []
           | Some tag \<Rightarrow> [simple_report tag ''manualConstruction''])"

definition noManualTaggedConstructionRule :: "unit listener" where
  "noManualTaggedConstructionRule =
     stateless (\<lambda>sc node.
       if kind node = ''ObjectExpression'' then taggedConstruction_ObjectExpression node else [])"

subsection \<open>no-service-constructor-imports\<close>

text \<open>\<^verbatim>\<open>/^make[A-Z]/u\<close>\<close>

definition service_constructor_name :: "string \<Rightarrow> bool" where
  "service_constructor_name s =
     (startsWith s ''make'' \<and> (case drop 4 s of [] \<Rightarrow> False | ch # _ \<Rightarrow> upper_char ch))"

text \<open>
  \<^verbatim>\<open>/\.(?:test|spec)\.[cm]?[jt]sx?$/u\<close>, read from the end of the name: each optional part is
  decided by the character it may hold.
\<close>

definition skip_optional :: "string \<Rightarrow> string \<Rightarrow> string" where
  "skip_optional chars s = (case s of [] \<Rightarrow> [] | ch # t \<Rightarrow> if ch \<in> set chars then t else s)"

definition test_file :: "string \<Rightarrow> bool" where
  "test_file name =
     (case skip_optional ''x'' (rev name) of
        c1 # c2 # s \<Rightarrow>
          c1 = CHR ''s'' \<and> (c2 = CHR ''j'' \<or> c2 = CHR ''t'') \<and>
          (startsWith (skip_optional ''cm'' s) (rev ''.test.'') \<or>
           startsWith (skip_optional ''cm'' s) (rev ''.spec.''))
      | _ \<Rightarrow> False)"

definition forward_slashes :: "string \<Rightarrow> string" where
  "forward_slashes name = map (\<lambda>ch. if ch = CHR 0x5C then CHR ''/'' else ch) name"

definition isProjectLocalImport :: "string \<Rightarrow> bool" where
  "isProjectLocalImport source \<longleftrightarrow> startsWith source ''./'' \<or> startsWith source ''../''"

definition getImportedName :: "cursor \<Rightarrow> string" where
  "getImportedName specifier =
     (let imported = child specifier ''imported'' in
      if kind imported = ''Identifier'' then identifier_name imported else str_of imported ''value'')"

fun check_specifiers :: "cursor list \<Rightarrow> report list" where
  "check_specifiers [] = []"
| "check_specifiers (specifier # rest) =
     (if kind specifier \<noteq> ''ImportSpecifier'' then check_specifiers rest
      else let name = getImportedName specifier in
           if \<not> service_constructor_name name then check_specifiers rest
           else \<lparr>rnode = specifier, messageId = ''serviceConstructorImport'',
                 rdata = [(''name'', name)]\<rparr> # check_specifiers rest)"

definition serviceImports_ImportDeclaration :: "string \<Rightarrow> cursor \<Rightarrow> report list" where
  "serviceImports_ImportDeclaration filename node =
     (if test_file (forward_slashes filename) \<or>
         \<not> isProjectLocalImport (str_of (child node ''source'') ''value'') then []
      else check_specifiers (elems node ''specifiers''))"

definition noServiceConstructorImportsRule :: "string \<Rightarrow> unit listener" where
  "noServiceConstructorImportsRule filename =
     stateless (\<lambda>sc node.
       if kind node = ''ImportDeclaration'' then serviceImports_ImportDeclaration filename node else [])"

subsection \<open>prefer-effect-match\<close>

definition isLiteral :: "cursor \<Rightarrow> bool" where
  "isLiteral node \<longleftrightarrow>
     kind node = ''Literal'' \<or>
     (kind node = ''TemplateLiteral'' \<and> length (elems node ''expressions'') = 0)"

definition comparedValue :: "source_code \<Rightarrow> cursor \<Rightarrow> string option" where
  "comparedValue sc node =
     (if kind node \<noteq> ''BinaryExpression'' \<or> str_of node ''operator'' \<notin> set equalityOperators then None
      else if isLiteral (child node ''left'') then Some (getText sc (child node ''right''))
      else if isLiteral (child node ''right'') then Some (getText sc (child node ''left''))
      else None)"

text \<open>The loop over the alternates; \<open>None\<close> is the early return.\<close>

function literal_checks :: "source_code \<Rightarrow> string \<Rightarrow> cursor \<Rightarrow> nat \<Rightarrow> nat option" where
  "literal_checks sc v alternate literalChecks =
     (if kind alternate = ''ConditionalExpression''
      then (if comparedValue sc (child alternate ''test'') \<noteq> Some v then None
            else literal_checks sc v (child alternate ''alternate'') (literalChecks + 1))
      else Some literalChecks)"
  by pat_completeness auto
termination
  by (relation "measure (\<lambda>(sc, v, c, n). size (focus c))") (auto simp: size_child_node kind_not_absent)

declare literal_checks.simps [simp del]

definition preferMatch_ConditionalExpression :: "source_code \<Rightarrow> cursor \<Rightarrow> report list" where
  "preferMatch_ConditionalExpression sc node =
     (if kind_is (parent node) ''ConditionalExpression'' then []
      else case comparedValue sc (child node ''test'') of
             None \<Rightarrow> []
           | Some v \<Rightarrow>
               (case literal_checks sc v (child node ''alternate'') 1 of
                  None \<Rightarrow> []
                | Some literalChecks \<Rightarrow>
                    if literalChecks > 1 then [simple_report node ''preferMatch''] else []))"

definition preferEffectMatchRule :: "unit listener" where
  "preferEffectMatchRule =
     stateless (\<lambda>sc node.
       if kind node = ''ConditionalExpression'' then preferMatch_ConditionalExpression sc node else [])"

subsection \<open>Chains of conditionals\<close>

function ternary_chain :: "cursor \<Rightarrow> cursor list" where
  "ternary_chain c =
     (if kind c = ''ConditionalExpression'' then c # ternary_chain (child c ''alternate'') else [])"
  by pat_completeness auto
termination
  by (relation "measure (\<lambda>c. size (focus c))") (auto simp: size_child_node kind_not_absent)

declare ternary_chain.simps [simp del]

lemma literal_checks_chain:
  "literal_checks sc v c n =
     (if \<forall>d \<in> set (ternary_chain c). comparedValue sc (child d ''test'') = Some v
      then Some (n + length (ternary_chain c)) else None)"
proof (induction sc v c n rule: literal_checks.induct)
  case (1 sc v c n)
  then show ?case
    by (cases "kind c = ''ConditionalExpression''")
      (auto simp: literal_checks.simps [of sc v c] ternary_chain.simps [of c])
qed

subsection \<open>File names\<close>

lemma skip_optional_starts:
  assumes "t = ch # u" and "ch \<notin> set chars"
  shows "startsWith (skip_optional chars s) t \<longleftrightarrow>
    startsWith s t \<or> (\<exists>x \<in> set chars. startsWith s (x # t))"
  using assms
  by (cases s) (auto simp: skip_optional_def startsWith_iff Cons_eq_append_conv)

definition test_extensions :: "string list" where
  "test_extensions =
     [''js'', ''ts'', ''cjs'', ''cts'', ''mjs'', ''mts'',
      ''jsx'', ''tsx'', ''cjsx'', ''ctsx'', ''mjsx'', ''mtsx'']"

lemma test_file_starts:
  "test_file name \<longleftrightarrow>
     (\<exists>jt \<in> set ''jt''. \<exists>t \<in> {rev ''.test.'', rev ''.spec.''}.
        startsWith (rev name) (CHR ''s'' # jt # t) \<or>
        startsWith (rev name) (CHR ''x'' # CHR ''s'' # jt # t) \<or>
        (\<exists>cm \<in> set ''cm''. startsWith (rev name) (CHR ''s'' # jt # cm # t) \<or>
           startsWith (rev name) (CHR ''x'' # CHR ''s'' # jt # cm # t)))"
proof -
  have cons: "startsWith (a # b # s) (c # d # t) \<longleftrightarrow> a = c \<and> b = d \<and> startsWith s t" for a b c d s t
    by (auto simp: startsWith_iff)
  have short: "\<not> startsWith [] (c # d # t)" "\<not> startsWith [a] (c # d # t)" for a c d t
    by (simp_all add: startsWith_iff)
  have cm: "startsWith (skip_optional ''cm'' s) t \<longleftrightarrow>
      startsWith s t \<or> (\<exists>x \<in> set ''cm''. startsWith s (x # t))"
    if "t \<in> {rev ''.test.'', rev ''.spec.''}" for s t
    using that by (intro skip_optional_starts [of _ "CHR ''.''" "tl t"]) auto
  have "test_file name \<longleftrightarrow>
      (\<exists>jt \<in> set ''jt''. \<exists>t \<in> {rev ''.test.'', rev ''.spec.''}.
         startsWith (skip_optional ''x'' (rev name)) (CHR ''s'' # jt # t) \<or>
         (\<exists>x \<in> set ''cm''. startsWith (skip_optional ''x'' (rev name)) (CHR ''s'' # jt # x # t)))"
    using cm [of "rev ''.test.''"] cm [of "rev ''.spec.''"]
    by (auto simp: test_file_def cons short split: list.split)
  also have "\<dots> \<longleftrightarrow> (\<exists>jt \<in> set ''jt''. \<exists>t \<in> {rev ''.test.'', rev ''.spec.''}.
        startsWith (rev name) (CHR ''s'' # jt # t) \<or>
        startsWith (rev name) (CHR ''x'' # CHR ''s'' # jt # t) \<or>
        (\<exists>cm \<in> set ''cm''. startsWith (rev name) (CHR ''s'' # jt # cm # t) \<or>
           startsWith (rev name) (CHR ''x'' # CHR ''s'' # jt # cm # t)))"
  proof -
    have x: "startsWith (skip_optional ''x'' s) (CHR ''s'' # t) \<longleftrightarrow>
        startsWith s (CHR ''s'' # t) \<or> startsWith s (CHR ''x'' # CHR ''s'' # t)" for s t
      using skip_optional_starts [of "CHR ''s'' # t" "CHR ''s''" t "''x''" s] by simp
    show ?thesis unfolding x by blast
  qed
  finally show ?thesis .
qed

lemma test_file_iff:
  "test_file name \<longleftrightarrow>
     (\<exists>base. \<exists>k \<in> {''test'', ''spec''}. \<exists>ext \<in> set test_extensions.
        name = base @ ''.'' @ k @ ''.'' @ ext)"
proof -
  have "(\<exists>base. name = base @ t) \<longleftrightarrow> startsWith (rev name) (rev t)" for t
    using endsWith_iff [of name t] by (simp add: endsWith_def)
  then have "(\<exists>base. \<exists>k \<in> {''test'', ''spec''}. \<exists>ext \<in> set test_extensions.
        name = base @ ''.'' @ k @ ''.'' @ ext) \<longleftrightarrow>
      (\<exists>k \<in> {''test'', ''spec''}. \<exists>ext \<in> set test_extensions.
        startsWith (rev name) (rev (''.'' @ k @ ''.'' @ ext)))" by blast
  then show ?thesis
    unfolding test_file_starts test_extensions_def by (simp add: disj_ac)
qed

lemma check_specifiers_filter:
  "check_specifiers ss =
     map (\<lambda>s. \<lparr>rnode = s, messageId = ''serviceConstructorImport'',
                rdata = [(''name'', getImportedName s)]\<rparr>)
       (filter (\<lambda>s. kind s = ''ImportSpecifier'' \<and> service_constructor_name (getImportedName s)) ss)"
  by (induction ss) (auto simp: Let_def)

subsection \<open>The nearest function expression\<close>

definition function_expression :: "cursor \<Rightarrow> bool" where
  "function_expression c \<longleftrightarrow>
     kind c = ''ArrowFunctionExpression'' \<or> kind c = ''FunctionExpression''"

lemma handler_walk_find:
  "handler_walk (ancestors c) =
     (case find function_expression (ancestors c) of
        None \<Rightarrow> False
      | Some f \<Rightarrow>
          (case parent f of
             None \<Rightarrow> False
           | Some p \<Rightarrow> isBroadEffectCatchCall p \<and> f \<in> set (elems p ''arguments'')))"
proof (induction "length (trail c)" arbitrary: c)
  case 0
  then show ?case by (simp add: ancestors_def)
next
  case (Suc n)
  then obtain p where p: "parent c = Some p" "length (trail p) = n"
    by (cases "trail c") (auto simp: parent_def)
  with Suc.hyps(1) [of p] show ?case
    by (auto simp: ancestors_step function_expression_def ancestors_parent [of p] split: option.split)
qed

text \<open>\<^verbatim>\<open>x === 1 ? a : x === 2 ? b : c\<close>\<close>

definition equality_node :: "node \<Rightarrow> node \<Rightarrow> node" where
  "equality_node l r =
     nd ''BinaryExpression''
       [(''operator'', Prim (PStr ''==='')), (''left'', Child l), (''right'', Child r)]"

definition conditional_node :: "node \<Rightarrow> node \<Rightarrow> node \<Rightarrow> node" where
  "conditional_node t a b =
     nd ''ConditionalExpression''
       [(''test'', Child t), (''consequent'', Child a), (''alternate'', Child b)]"

definition ternary_example :: cursor where
  "ternary_example = Cursor (conditional_node
     (equality_node (ident ''x'') (nd ''Literal'' [(''value'', Prim (PNum 1))])) (ident ''a'')
     (conditional_node (equality_node (ident ''x'') (nd ''Literal'' [(''value'', Prim (PNum 2))]))
        (ident ''b'') (ident ''c''))) []"

definition named_source :: source_code where
  "named_source = example_source\<lparr>getText := identifier_name\<rparr>"

subsection \<open>Properties\<close>

text \<open>
  C19: the rules no-manual-effect-error-tag and no-manual-tag-comparison divide the manual tag
  branches among them: every comparison of a _tag member with a string and every switch on a
  _tag member is reported by exactly one of the two, and nothing else by either.
\<close>

theorem tag_branches_partitioned:
  "length (errorTag_BinaryExpression node) + length (tagComparison_BinaryExpression node) =
     (if tagMemberFromComparison node = None then 0 else 1) \<and>
   length (errorTag_SwitchStatement node) + length (tagComparison_SwitchStatement node) =
     (if isTagMember (child node ''discriminant'') then 1 else 0)"
  by (auto simp: errorTag_BinaryExpression_def tagComparison_BinaryExpression_def
      errorTag_SwitchStatement_def tagComparison_SwitchStatement_def split: option.split)

text \<open>
  C20: a node is inside a broad Effect handler exactly when the nearest arrow function or
  function expression around it is itself an argument of Effect.catch, Effect.catchAll or
  Effect.catchIf; a handler further out does not count.
\<close>

theorem broad_handler_nearest:
  "isInsideBroadEffectHandler node =
     (case find function_expression (ancestors node) of
        None \<Rightarrow> False
      | Some f \<Rightarrow>
          (case parent f of
             None \<Rightarrow> False
           | Some p \<Rightarrow> isBroadEffectCatchCall p \<and> f \<in> set (elems p ''arguments'')))"
  unfolding isInsideBroadEffectHandler_def by (rule handler_walk_find)

text \<open>
  C21: prefer-effect-match reports a conditional exactly when it is not a direct part of another
  conditional, at least two conditionals follow each other through their alternates, and all of
  them compare the same value, by source text, with a literal.
\<close>

theorem prefer_match_reported:
  assumes "kind node = ''ConditionalExpression''"
  shows "preferMatch_ConditionalExpression sc node =
    (if kind_is (parent node) ''ConditionalExpression'' = False \<and>
        length (ternary_chain node) > 1 \<and>
        (\<exists>v. \<forall>c \<in> set (ternary_chain node). comparedValue sc (child c ''test'') = Some v)
     then [simple_report node ''preferMatch''] else [])"
proof -
  have chain: "ternary_chain node = node # ternary_chain (child node ''alternate'')"
    using assms by (simp add: ternary_chain.simps [of node])
  show ?thesis
    by (cases "comparedValue sc (child node ''test'')")
      (auto simp: preferMatch_ConditionalExpression_def literal_checks_chain chain)
qed

theorem prefer_match_reported_witness:
  "preferMatch_ConditionalExpression named_source ternary_example =
     [simple_report ternary_example ''preferMatch'']"
proof -
  have "kind ternary_example = ''ConditionalExpression''"
    and "kind_is (parent ternary_example) ''ConditionalExpression'' = False"
    and "length (ternary_chain ternary_example) > 1"
    and "\<forall>c \<in> set (ternary_chain ternary_example).
      comparedValue named_source (child c ''test'') = Some ''x''" by code_simp+
  then show ?thesis using prefer_match_reported [of ternary_example named_source] by auto
qed

text \<open>
  C32: no-service-constructor-imports reports, in order, exactly the specifiers of a relative
  import whose imported name starts with make and a capital letter, and nothing at all in a
  file whose name ends in .test or .spec and one of the twelve script extensions.
\<close>

theorem service_imports_reported:
  "map rnode (serviceImports_ImportDeclaration filename node) =
     (if (\<exists>base. \<exists>k \<in> {''test'', ''spec''}. \<exists>ext \<in> set test_extensions.
            forward_slashes filename = base @ ''.'' @ k @ ''.'' @ ext) then []
      else if isProjectLocalImport (str_of (child node ''source'') ''value'')
      then filter (\<lambda>s. kind s = ''ImportSpecifier'' \<and> service_constructor_name (getImportedName s))
             (elems node ''specifiers'')
      else [])"
  unfolding serviceImports_ImportDeclaration_def test_file_iff [symmetric]
  by (simp add: check_specifiers_filter comp_def)

end
