(* ===== verification/Known_Widening.thy ===== *)
theory Known_Widening
  imports Dictionary_Termination Function_Parameters
begin

text \<open>
  The rule \<^verbatim>\<open>no-known-value-widening\<close>: a value whose shape is known from the syntax (a literal,
  a constructor call, or a constant initialized from one) must not flow into a binding, property,
  return type, assertion or type-guard parameter of a broad type.

  Evidence is looked for through constant initializers with a set of visited variables, as in
  \<open>Array_Methods\<close>. The search for the evidence of a call argument asks the dictionary classifier
  on the way; the answer \<open>None\<close> of that recursion is carried through the result of the search.
\<close>

subsection \<open>Known evidence\<close>

definition unwrapExpression :: "cursor \<Rightarrow> cursor" where
  "unwrapExpression expression =
     unwrap_while (\<lambda>c. kind c \<in> {''ParenthesizedExpression'', ''TSAsExpression'',
       ''TSSatisfiesExpression'', ''TSTypeAssertion'', ''TSNonNullExpression''})
       ''expression'' expression"

definition variableDeclarator :: "variable \<Rightarrow> cursor option" where
  "variableDeclarator v =
     (case var_defs v of
        [d] \<Rightarrow>
          if def_type d = ''Variable'' \<and> kind (def_node d) = ''VariableDeclarator''
          then Some (def_node d) else None
      | _ \<Rightarrow> None)"

definition isStableConstVariable :: "variable \<Rightarrow> cursor \<Rightarrow> bool" where
  "isStableConstVariable v declarator \<longleftrightarrow>
     (case parent declarator of
        None \<Rightarrow> False
      | Some p \<Rightarrow> kind p = ''VariableDeclaration'' \<and> str_of p ''kind'' = ''const'') \<and>
     list_all (\<lambda>r. ref_init r \<or> \<not> ref_isWrite r) (var_references v)"

text \<open>The initializer of a constant that is never written again.\<close>

definition stable_initializer :: "variable \<Rightarrow> cursor option" where
  "stable_initializer v =
     (case variableDeclarator v of
        None \<Rightarrow> None
      | Some declarator \<Rightarrow>
          if null (child declarator ''init'') \<or> \<not> isStableConstVariable v declarator then None
          else Some (child declarator ''init''))"

definition evidence_call ::
    "source_code \<Rightarrow> cursor \<times> nat list \<Rightarrow> (cursor \<times> nat list, bool) call" where
  "evidence_call sc st =
     (case st of (expression, visited) \<Rightarrow>
        if isKnownEvidenceExpression expression then Done True
        else let unwrapped = unwrapExpression expression in
             if kind unwrapped \<noteq> ''Identifier'' then Done False
             else case resolveVariable sc unwrapped of
                    None \<Rightarrow> Done False
                  | Some v \<Rightarrow>
                      if var_id v \<in> set visited then Done False
                      else (case stable_initializer v of
                              None \<Rightarrow> Done False
                            | Some init \<Rightarrow> Tail (init, var_id v # visited)))"

definition hasKnownEvidence :: "nat \<Rightarrow> source_code \<Rightarrow> cursor \<Rightarrow> nat list \<Rightarrow> bool option" where
  "hasKnownEvidence depth sc expression visited =
     run_calls (evidence_call sc) depth (expression, visited)"

subsection \<open>Functions and annotations\<close>

definition isFunctionExpression :: "cursor \<Rightarrow> bool" where
  "isFunctionExpression node \<longleftrightarrow>
     kind node \<in> {''ArrowFunctionExpression'', ''FunctionDeclaration'', ''FunctionExpression'',
       ''TSDeclareFunction'', ''TSEmptyBodyFunctionExpression''}"

definition localFunctionForCall :: "source_code \<Rightarrow> cursor \<Rightarrow> cursor option" where
  "localFunctionForCall sc callee =
     (let unwrapped = unwrapExpression callee in
      if isFunctionExpression unwrapped then Some unwrapped
      else if kind unwrapped \<noteq> ''Identifier'' then None
      else case resolveVariable sc unwrapped of
             None \<Rightarrow> None
           | Some v \<Rightarrow>
               (case var_defs v of
                  [d] \<Rightarrow>
                    if def_type d = ''FunctionName'' \<and> isFunctionExpression (def_node d)
                    then Some (def_node d)
                    else if def_type d \<noteq> ''Variable'' \<or> kind (def_node d) \<noteq> ''VariableDeclarator''
                    then None
                    else if null (child (def_node d) ''init'') then None
                    else let f = unwrapExpression (child (def_node d) ''init'') in
                         if isFunctionExpression f then Some f else None
                | _ \<Rightarrow> None))"

definition variableTypeAnnotation :: "source_code \<Rightarrow> variable \<Rightarrow> cursor option" where
  "variableTypeAnnotation sc v =
     (case var_defs v of
        [d] \<Rightarrow>
          if def_type d = ''Variable'' \<and> kind (def_node d) = ''VariableDeclarator'' \<and>
             kind (child (def_node d) ''id'') = ''Identifier''
          then opt_child (child (def_node d) ''id'') ''typeAnnotation''
          else if def_type d \<noteq> ''Parameter'' \<or> \<not> isFunctionExpression (def_node d) then None
          else (case find (\<lambda>c. functionParameterBindingName c sc = var_name v)
                       (elems (def_node d) ''params'') of
                  None \<Rightarrow> None
                | Some parameter \<Rightarrow> functionParameterTypeAnnotation parameter)
      | _ \<Rightarrow> None)"

definition hasInformativeType :: "nat \<Rightarrow> cursor \<Rightarrow> type_environment \<Rightarrow> bool option" where
  "hasInformativeType depth type env =
     map_option (\<lambda>r. r = None) (classifyUnsafeDictionaryValue depth type env)"

subsection \<open>Evidence for a call argument\<close>

definition argument_variable ::
    "nat \<Rightarrow> source_code \<Rightarrow> type_environment \<Rightarrow> variable \<Rightarrow> nat list \<Rightarrow>
     (cursor \<times> nat list, bool option) call" where
  "argument_variable depth sc env v visited =
     (if var_id v \<in> set visited then Done (Some False)
      else case variableTypeAnnotation sc v of
             Some annotation \<Rightarrow>
               Done (hasInformativeType depth (child annotation ''typeAnnotation'') env)
           | None \<Rightarrow>
               (case stable_initializer v of
                  None \<Rightarrow> Done (Some False)
                | Some init \<Rightarrow> Tail (init, var_id v # visited)))"

definition argument_call ::
    "nat \<Rightarrow> source_code \<Rightarrow> type_environment \<Rightarrow> cursor \<times> nat list \<Rightarrow>
     (cursor \<times> nat list, bool option) call" where
  "argument_call depth sc env st =
     (case st of (expression, visited) \<Rightarrow>
        if kind expression = ''ParenthesizedExpression'' \<or> kind expression = ''TSNonNullExpression''
        then Tail (child expression ''expression'', visited)
        else if kind expression = ''TSAsExpression'' \<or> kind expression = ''TSTypeAssertion''
        then Done (hasInformativeType depth (child expression ''typeAnnotation'') env)
        else if kind expression = ''TSSatisfiesExpression''
        then Tail (child expression ''expression'', visited)
        else if kind expression = ''CallExpression''
        then (case localFunctionForCall sc (child expression ''callee'') of
                None \<Rightarrow> Done (Some False)
              | Some owner \<Rightarrow>
                  if null (child owner ''returnType'') then Done (Some False)
                  else Done (hasInformativeType depth
                         (child (child owner ''returnType'') ''typeAnnotation'') env))
        else if kind expression \<noteq> ''Identifier''
        then Done (Some (isKnownEvidenceExpression expression))
        else case resolveVariable sc expression of
               None \<Rightarrow> Done (Some False)
             | Some v \<Rightarrow> argument_variable depth sc env v visited)"

definition hasKnownCallArgumentEvidence ::
    "nat \<Rightarrow> source_code \<Rightarrow> cursor \<Rightarrow> type_environment \<Rightarrow> nat list \<Rightarrow> bool option" where
  "hasKnownCallArgumentEvidence depth sc expression env visited =
     (case run_calls (argument_call depth sc env) depth (expression, visited) of
        None \<Rightarrow> None | Some r \<Rightarrow> r)"

subsection \<open>Type guards\<close>

fun find_index :: "('a \<Rightarrow> bool) \<Rightarrow> 'a list \<Rightarrow> nat option" where
  "find_index P [] = None"
| "find_index P (x # xs) = (if P x then Some 0 else map_option Suc (find_index P xs))"

definition typePredicateSubjectIndex :: "source_code \<Rightarrow> cursor \<Rightarrow> nat option" where
  "typePredicateSubjectIndex sc owner =
     (let predicate = child (child owner ''returnType'') ''typeAnnotation'' in
      if kind predicate \<noteq> ''TSTypePredicate'' \<or>
         kind (child predicate ''parameterName'') \<noteq> ''Identifier'' then None
      else find_index (\<lambda>parameter. functionParameterBindingName parameter sc =
                         identifier_name (child predicate ''parameterName''))
             (elems owner ''params''))"

subsection \<open>Names in messages\<close>

definition annotationTarget ::
    "nat \<Rightarrow> cursor option \<Rightarrow> type_environment \<Rightarrow> widening_target option option" where
  "annotationTarget depth annotation env =
     (case annotation of
        None \<Rightarrow> Some None
      | Some a \<Rightarrow> classifyWideningTarget depth (child a ''typeAnnotation'') env)"

definition enclosingFunction :: "cursor \<Rightarrow> cursor option" where
  "enclosingFunction node =
     find (\<lambda>c. kind c \<in> {''ArrowFunctionExpression'', ''FunctionDeclaration'', ''FunctionExpression''})
       (below_program (ancestors node))"

fun digits :: "nat \<Rightarrow> string" where
  "digits n = (if n < 10 then [char_of (48 + n)] else digits (n div 10) @ [char_of (48 + n mod 10)])"

text \<open>\<^verbatim>\<open>String(value)\<close> of a literal.\<close>

fun prim_string :: "prim \<Rightarrow> string" where
  "prim_string (PStr s) = s"
| "prim_string (PNum i) = (if i < 0 then CHR ''-'' # digits (nat (- i)) else digits (nat i))"
| "prim_string (PBool b) = (if b then ''true'' else ''false'')"
| "prim_string PNull = ''null''"
| "prim_string (POther s) = s"

definition sourceKeyName :: "source_code \<Rightarrow> cursor \<Rightarrow> string" where
  "sourceKeyName sc key =
     (if kind key = ''Identifier'' \<or> kind key = ''PrivateIdentifier'' then identifier_name key
      else if kind key = ''Literal''
      then (case prim_of key ''value'' of None \<Rightarrow> ''undefined'' | Some v \<Rightarrow> prim_string v)
      else getText sc key)"

definition functionName :: "source_code \<Rightarrow> cursor option \<Rightarrow> string" where
  "functionName sc owner =
     (case owner of
        None \<Rightarrow> ''anonymous function''
      | Some f \<Rightarrow>
          if \<not> null (child f ''id'') then identifier_name (child f ''id'')
          else (case parent f of
                  None \<Rightarrow> ''anonymous function''
                | Some p \<Rightarrow>
                    if kind p = ''VariableDeclarator'' \<and> kind (child p ''id'') = ''Identifier''
                    then identifier_name (child p ''id'')
                    else if kind p = ''MethodDefinition'' then sourceKeyName sc (child p ''key'')
                    else ''anonymous function''))"

definition isEmptyObject :: "cursor \<Rightarrow> bool" where
  "isEmptyObject expression =
     (let unwrapped = unwrapExpression expression in
      kind unwrapped = ''ObjectExpression'' \<and> length (elems unwrapped ''properties'') = 0)"

definition isDictionaryAccumulatorTarget :: "widening_target \<Rightarrow> bool" where
  "isDictionaryAccumulatorTarget destination \<longleftrightarrow>
     destination = OpenDictionary \<or> destination = GenericContainer"

definition hasParentAssertion :: "cursor \<Rightarrow> bool" where
  "hasParentAssertion node \<longleftrightarrow>
     kind_is (parent node) ''TSAsExpression'' \<or> kind_is (parent node) ''TSTypeAssertion''"

fun target_name :: "widening_target \<Rightarrow> string" where
  "target_name AnonymousObject = ''anonymous object''"
| "target_name GenericContainer = ''generic container''"
| "target_name ObjectTarget = ''object''"
| "target_name OpenDictionary = ''open dictionary''"
| "target_name UnknownTarget = ''unknown''"

subsection \<open>The rule\<close>

definition quoted :: "string \<Rightarrow> string" where
  "quoted s = CHR 0x60 # s @ [CHR 0x60]"

definition widening_report :: "cursor \<Rightarrow> string \<Rightarrow> string \<Rightarrow> report" where
  "widening_report node subject target =
     \<lparr>rnode = node, messageId = ''widening'',
      rdata = [(''subject'', subject), (''target'', target)]\<rparr>"

definition reportFlow ::
    "nat \<Rightarrow> source_code \<Rightarrow> cursor \<Rightarrow> widening_target option option \<Rightarrow> string \<Rightarrow> report list option"
where
  "reportFlow depth sc expression destination subject =
     (case destination of
        None \<Rightarrow> None
      | Some None \<Rightarrow> Some []
      | Some (Some d) \<Rightarrow>
          if isDictionaryAccumulatorTarget d \<and> isEmptyObject expression then Some []
          else map_option (\<lambda>known.
                 if known then [widening_report expression subject (target_name d)] else [])
               (hasKnownEvidence depth sc expression []))"

record widening_rule_state =
  wr_environment :: "type_environment option"
  wr_cache :: environment_cache

definition targetFromAnnotation ::
    "nat \<Rightarrow> type_environment option \<Rightarrow> cursor option \<Rightarrow> widening_target option option" where
  "targetFromAnnotation depth environment annotation =
     (case environment of
        None \<Rightarrow> Some None
      | Some env \<Rightarrow> annotationTarget depth annotation env)"

definition widening_VariableDeclarator ::
    "nat \<Rightarrow> source_code \<Rightarrow> type_environment option \<Rightarrow> cursor \<Rightarrow> report list option" where
  "widening_VariableDeclarator depth sc environment node =
     (if null (child node ''init'') \<or> kind (child node ''id'') \<noteq> ''Identifier'' then Some []
      else reportFlow depth sc (child node ''init'')
             (targetFromAnnotation depth environment (opt_child (child node ''id'') ''typeAnnotation''))
             (''binding '' @ quoted (identifier_name (child node ''id''))))"

definition widening_property ::
    "nat \<Rightarrow> source_code \<Rightarrow> type_environment option \<Rightarrow> cursor \<Rightarrow> report list option" where
  "widening_property depth sc environment node =
     (if null (child node ''value'') then Some []
      else reportFlow depth sc (child node ''value'')
             (targetFromAnnotation depth environment (opt_child node ''typeAnnotation''))
             (''property '' @ quoted (sourceKeyName sc (child node ''key''))))"

definition widening_AssignmentExpression ::
    "nat \<Rightarrow> source_code \<Rightarrow> type_environment option \<Rightarrow> cursor \<Rightarrow> report list option" where
  "widening_AssignmentExpression depth sc environment node =
     (if str_of node ''operator'' \<noteq> ''='' \<or> kind (child node ''left'') \<noteq> ''Identifier'' then Some []
      else case resolveVariable sc (child node ''left'') of
             None \<Rightarrow> Some []
           | Some v \<Rightarrow>
               (case variableDeclarator v of
                  None \<Rightarrow> Some []
                | Some declarator \<Rightarrow>
                    if kind (child declarator ''id'') \<noteq> ''Identifier'' then Some []
                    else reportFlow depth sc (child node ''right'')
                           (targetFromAnnotation depth environment
                              (opt_child (child declarator ''id'') ''typeAnnotation''))
                           (''binding '' @ quoted (identifier_name (child declarator ''id'')))))"

definition widening_argument ::
    "nat \<Rightarrow> source_code \<Rightarrow> type_environment \<Rightarrow> cursor \<Rightarrow> cursor \<Rightarrow> cursor \<Rightarrow> report list option" where
  "widening_argument depth sc env owner parameter argument =
     (case functionParameterTypeAnnotation parameter of
        None \<Rightarrow> Some []
      | Some annotation \<Rightarrow>
          if \<not> containsUnknownType (child annotation ''typeAnnotation'') then Some []
          else map_option (\<lambda>known.
                 if known
                 then [widening_report argument
                         (''argument for parameter '' @
                          quoted (functionParameterBindingName parameter sc) @ '' of '' @
                          quoted (functionName sc (Some owner))) ''unknown'']
                 else [])
               (hasKnownCallArgumentEvidence depth sc argument env []))"

definition widening_CallExpression ::
    "nat \<Rightarrow> source_code \<Rightarrow> type_environment option \<Rightarrow> cursor \<Rightarrow> report list option" where
  "widening_CallExpression depth sc environment node =
     (case environment of
        None \<Rightarrow> Some []
      | Some env \<Rightarrow>
          (case localFunctionForCall sc (child node ''callee'') of
             None \<Rightarrow> Some []
           | Some owner \<Rightarrow>
               (case typePredicateSubjectIndex sc owner of
                  None \<Rightarrow> Some []
                | Some parameterIndex \<Rightarrow>
                    (case (at_index (elems owner ''params'') parameterIndex,
                           at_index (elems node ''arguments'') parameterIndex) of
                       (Some parameter, Some argument) \<Rightarrow>
                         if kind argument = ''SpreadElement'' then Some []
                         else widening_argument depth sc env owner parameter argument
                     | _ \<Rightarrow> Some []))))"

definition widening_ReturnStatement ::
    "nat \<Rightarrow> source_code \<Rightarrow> type_environment option \<Rightarrow> cursor \<Rightarrow> report list option" where
  "widening_ReturnStatement depth sc environment node =
     (if null (child node ''argument'') then Some []
      else let owner = enclosingFunction node in
           reportFlow depth sc (child node ''argument'')
             (targetFromAnnotation depth environment
                (case owner of None \<Rightarrow> None | Some f \<Rightarrow> opt_child f ''returnType''))
             (''return value of '' @ quoted (functionName sc owner)))"

definition widening_ArrowFunctionExpression ::
    "nat \<Rightarrow> source_code \<Rightarrow> type_environment option \<Rightarrow> cursor \<Rightarrow> report list option" where
  "widening_ArrowFunctionExpression depth sc environment node =
     (if kind (child node ''body'') = ''BlockStatement'' then Some []
      else reportFlow depth sc (child node ''body'')
             (targetFromAnnotation depth environment (opt_child node ''returnType''))
             (''return value of '' @ quoted (functionName sc (Some node))))"

definition widening_assertion ::
    "nat \<Rightarrow> source_code \<Rightarrow> type_environment option \<Rightarrow> cursor \<Rightarrow> report list option" where
  "widening_assertion depth sc environment node =
     (case environment of
        None \<Rightarrow> Some []
      | Some env \<Rightarrow>
          if hasParentAssertion node then Some []
          else reportFlow depth sc (child node ''expression'')
                 (classifyWideningTarget depth (child node ''typeAnnotation'') env) ''assertion'')"

definition widening_handler ::
    "nat \<Rightarrow> source_code \<Rightarrow> type_environment option \<Rightarrow> cursor \<Rightarrow> report list option" where
  "widening_handler depth sc environment node =
     (if kind node = ''VariableDeclarator'' then widening_VariableDeclarator depth sc environment node
      else if kind node = ''PropertyDefinition'' \<or> kind node = ''AccessorProperty''
      then widening_property depth sc environment node
      else if kind node = ''AssignmentExpression''
      then widening_AssignmentExpression depth sc environment node
      else if kind node = ''CallExpression'' then widening_CallExpression depth sc environment node
      else if kind node = ''ReturnStatement'' then widening_ReturnStatement depth sc environment node
      else if kind node = ''ArrowFunctionExpression''
      then widening_ArrowFunctionExpression depth sc environment node
      else if kind node = ''TSAsExpression'' \<or> kind node = ''TSTypeAssertion''
      then widening_assertion depth sc environment node
      else Some [])"

definition noKnownValueWideningRule :: "nat \<Rightarrow> widening_rule_state listener" where
  "noKnownValueWideningRule depth sc node st =
     (if kind node = ''Program''
      then let (env, cache) = createTypeEnvironment node (sc_visitorKeys sc) (wr_cache st)
           in Some (\<lparr>wr_environment = Some env, wr_cache = cache\<rparr>, [])
      else map_option (Pair st) (widening_handler depth sc (wr_environment st) node))"

subsection \<open>Evidence without visited variables\<close>

definition evidence_variable :: "source_code \<Rightarrow> cursor \<Rightarrow> nat option" where
  "evidence_variable sc c =
     (if isKnownEvidenceExpression c \<or> kind (unwrapExpression c) \<noteq> ''Identifier'' then None
      else map_option var_id (resolveVariable sc (unwrapExpression c)))"

definition evidence_plain :: "source_code \<Rightarrow> cursor \<Rightarrow> bool + cursor" where
  "evidence_plain sc c =
     (if isKnownEvidenceExpression c then Inl True
      else if kind (unwrapExpression c) \<noteq> ''Identifier'' then Inl False
      else case resolveVariable sc (unwrapExpression c) of
             None \<Rightarrow> Inl False
           | Some v \<Rightarrow>
               (case stable_initializer v of None \<Rightarrow> Inl False | Some init \<Rightarrow> Inr init))"

lemma evidence_variable_same:
  assumes "well_scoped sc" and "evidence_variable sc c = Some i" and "evidence_variable sc c' = Some i"
  shows "evidence_plain sc c = evidence_plain sc c'"
proof -
  from assms(2,3) obtain v w where
    c: "\<not> isKnownEvidenceExpression c" "kind (unwrapExpression c) = ''Identifier''"
      "resolveVariable sc (unwrapExpression c) = Some v" "var_id v = i"
    and c': "\<not> isKnownEvidenceExpression c'" "kind (unwrapExpression c') = ''Identifier''"
      "resolveVariable sc (unwrapExpression c') = Some w" "var_id w = i"
    by (auto simp: evidence_variable_def split: if_splits)
  then have "v = w" using well_scopedD(2) [OF assms(1)] resolve_in_variables by blast
  with c c' show ?thesis by (simp add: evidence_plain_def)
qed

interpretation evidence: variable_chain
  "evidence_call (Rep_scope_manager m)" "evidence_plain (Rep_scope_manager m)"
  "evidence_variable (Rep_scope_manager m)" False "var_id ` variables (Rep_scope_manager m)"
  for m :: scope_manager
proof (unfold_locales, goal_cases)
  case 1
  then show ?case by (rule well_scopedD(1) [OF scope_manager_rep])
next
  case (7 c v c')
  then show ?case by (rule evidence_variable_same [OF scope_manager_rep])
qed (auto simp: evidence_variable_def evidence_call_def evidence_plain_def Let_def
    split: if_splits option.splits dest: resolve_in_variables)

definition argument_variable_id :: "source_code \<Rightarrow> cursor \<Rightarrow> nat option" where
  "argument_variable_id sc c =
     (if kind c = ''Identifier'' then map_option var_id (resolveVariable sc c) else None)"

definition argument_plain ::
    "nat \<Rightarrow> source_code \<Rightarrow> type_environment \<Rightarrow> cursor \<Rightarrow> bool option + cursor" where
  "argument_plain depth sc env c =
     (if kind c = ''Identifier'' then
        (case resolveVariable sc c of
           None \<Rightarrow> Inl (Some False)
         | Some v \<Rightarrow>
             (case variableTypeAnnotation sc v of
                Some annotation \<Rightarrow>
                  Inl (hasInformativeType depth (child annotation ''typeAnnotation'') env)
              | None \<Rightarrow>
                  (case stable_initializer v of
                     None \<Rightarrow> Inl (Some False) | Some init \<Rightarrow> Inr init)))
      else (case argument_call depth sc env (c, []) of
              Done r \<Rightarrow> Inl r | Tail d \<Rightarrow> Inr (fst d) | _ \<Rightarrow> Inl (Some False)))"

interpretation argument: variable_chain
  "argument_call depth (Rep_scope_manager m) env" "argument_plain depth (Rep_scope_manager m) env"
  "argument_variable_id (Rep_scope_manager m)" "Some False" "var_id ` variables (Rep_scope_manager m)"
  for depth :: nat and env :: type_environment and m :: scope_manager
proof (unfold_locales, goal_cases)
  case 1
  then show ?case by (rule well_scopedD(1) [OF scope_manager_rep])
next
  case (7 c v c')
  then obtain x y where "kind c = ''Identifier''" "kind c' = ''Identifier''"
    and x: "resolveVariable (Rep_scope_manager m) c = Some x" "var_id x = v"
    and y: "resolveVariable (Rep_scope_manager m) c' = Some y" "var_id y = v"
    by (auto simp: argument_variable_id_def split: if_splits)
  moreover have "x = y"
    using x y well_scopedD(2) [OF scope_manager_rep] resolve_in_variables by metis
  ultimately show ?case by (simp add: argument_plain_def)
qed (auto simp: argument_variable_id_def argument_call_def argument_variable_def argument_plain_def
    size_child_node kind_not_absent split: if_splits option.splits dest: resolve_in_variables)

lemma evidence_decides:
  assumes "well_scoped sc"
  shows "\<exists>n. \<forall>m\<ge>n. \<exists>r. hasKnownEvidence m sc c [] = Some r \<and> plain_result (evidence_plain sc) False c r"
  using evidence.chain_decides [of "Abs_scope_manager sc" c] scope_manager_abs [OF assms]
  by (simp add: hasKnownEvidence_def)

subsection \<open>Definitions of the program\<close>

definition definitions_in :: "source_code \<Rightarrow> cursor \<Rightarrow> bool" where
  "definitions_in sc p \<longleftrightarrow> (\<forall>v \<in> variables sc. \<forall>d \<in> set (var_defs v). below (def_node d) p)"

lemma below_parameter_annotation: "functionParameterTypeAnnotation c = Some a \<Longrightarrow> below a c"
proof (induction c rule: functionParameterTypeAnnotation.induct)
  case (1 c)
  note unfold = functionParameterTypeAnnotation.simps [of c]
  show ?case
    using 1
    by (auto simp: unfold opt_child_def split: if_splits option.splits
        intro: below_child below_trans [OF _ below_child])
qed

lemma below_unwrapExpression: "below (unwrapExpression c) c"
  unfolding unwrapExpression_def by (rule below_unwrap)

lemma below_definition:
  "definitions_in sc p \<Longrightarrow> v \<in> variables sc \<Longrightarrow> d \<in> set (var_defs v) \<Longrightarrow> below (def_node d) p"
  by (simp add: definitions_in_def)

lemma below_declarator:
  "definitions_in sc p \<Longrightarrow> v \<in> variables sc \<Longrightarrow> variableDeclarator v = Some d \<Longrightarrow> below d p"
  by (auto simp: variableDeclarator_def split: list.splits if_splits intro: below_definition)

lemma below_stable_initializer:
  assumes "definitions_in sc p" and "v \<in> variables sc" and "stable_initializer v = Some i"
  shows "below i p"
  using assms(3) below_declarator [OF assms(1,2)]
  by (auto simp: stable_initializer_def split: if_splits option.splits
      intro: below_trans [OF below_child])

lemma below_variable_annotation:
  assumes "definitions_in sc p" and "v \<in> variables sc" and "variableTypeAnnotation sc v = Some a"
  shows "below a p"
proof -
  from assms(3) obtain d where d: "var_defs v = [d]"
    by (auto simp: variableTypeAnnotation_def split: list.splits)
  have "below (def_node d) p" using below_definition [OF assms(1,2)] d by simp
  moreover have "below a (def_node d)"
    using assms(3) d
    by (auto simp: variableTypeAnnotation_def opt_child_def split: if_splits option.splits
        dest!: find_SomeD below_parameter_annotation
        intro: below_trans [OF below_child below_child] below_trans [OF _ below_elems])
  ultimately show ?thesis by (rule below_trans [rotated])
qed

lemma below_local_function:
  assumes "definitions_in sc p" and "below callee p" and "localFunctionForCall sc callee = Some f"
  shows "below f p"
proof (cases "isFunctionExpression (unwrapExpression callee)")
  case True
  with assms(3) have "f = unwrapExpression callee" by (simp add: localFunctionForCall_def)
  with assms(2) below_unwrapExpression show ?thesis by (blast intro: below_trans)
next
  case False
  with assms(3) obtain v d where v: "resolveVariable sc (unwrapExpression callee) = Some v"
    and d: "var_defs v = [d]"
    and f: "f = def_node d \<or> f = unwrapExpression (child (def_node d) ''init'')"
    by (auto simp: localFunctionForCall_def Let_def split: if_splits option.splits list.splits)
  have "below (def_node d) p"
    using below_definition [OF assms(1) resolve_in_variables [OF v]] d by simp
  with f show ?thesis
    by (blast intro: below_trans below_unwrapExpression below_child)
qed

subsection \<open>The rule returns\<close>

lemma informative_converges:
  "ranked_state rank env (t, [], []) \<Longrightarrow> converges (\<lambda>n. hasInformativeType n t env)"
  using unsafe.calls_converge [of rank env "(t, [], [])"]
  by (simp add: hasInformativeType_def classifyUnsafeDictionaryValue_def unsafeDirectValue_def
      converges_def)

lemma ranked_source_state: "ranked_source rank p env \<Longrightarrow> below c p \<Longrightarrow> ranked_state rank env (c, [], [])"
  using ranked_arguments_below [of c p] by (simp add: ranked_source_def ranked_state_def)

lemma informative_below:
  "ranked_source rank p env \<Longrightarrow> below t p \<Longrightarrow> \<exists>n. \<forall>m\<ge>n. hasInformativeType m t env \<noteq> None"
  using informative_converges [OF ranked_source_state] unfolding converges_def by blast

lemma argument_linear: "linear (argument_call depth sc env)"
  by (auto simp: linear_def argument_call_def argument_variable_def split: prod.split option.split)

lemma argument_tails: "tail_of (argument_call depth sc env st) = tail_of (argument_call 0 sc env st)"
  by (auto simp: argument_call_def argument_variable_def split: prod.split option.split)

lemma argument_tail_below:
  assumes "definitions_in sc p" and "below (fst a) p" and "tail_of (argument_call 0 sc env a) = Some b"
  shows "below (fst b) p"
  using assms
  by (cases a) (auto simp: argument_call_def argument_variable_def split: if_splits option.splits
      intro: below_trans [OF below_child] below_stable_initializer resolve_in_variables)

text \<open>The types whose classification a call of the search may return.\<close>

definition argument_types :: "source_code \<Rightarrow> cursor \<Rightarrow> cursor list" where
  "argument_types sc c =
     child c ''typeAnnotation'' #
     (case localFunctionForCall sc (child c ''callee'') of
        None \<Rightarrow> []
      | Some owner \<Rightarrow> [child (child owner ''returnType'') ''typeAnnotation'']) @
     (case resolveVariable sc c of
        None \<Rightarrow> []
      | Some v \<Rightarrow>
          (case variableTypeAnnotation sc v of
             None \<Rightarrow> [] | Some a \<Rightarrow> [child a ''typeAnnotation'']))"

lemma argument_types_below:
  assumes "definitions_in sc p" and "below c p" and "x \<in> set (argument_types sc c)"
  shows "below x p"
proof -
  have down: "below a p \<Longrightarrow> below (child a key) p" for a key
    by (blast intro: below_trans below_child)
  have "below f p" if "localFunctionForCall sc (child c ''callee'') = Some f" for f
    using below_local_function [OF assms(1) down [OF assms(2)] that] .
  moreover have "below a p" if "resolveVariable sc c = Some v" "variableTypeAnnotation sc v = Some a" for v a
    using below_variable_annotation [OF assms(1) resolve_in_variables [OF that(1)] that(2)] .
  ultimately show ?thesis
    using assms(2,3)
    by (cases "resolveVariable sc c"; cases "variableTypeAnnotation sc (the (resolveVariable sc c))")
      (auto simp: argument_types_def down split: option.splits)
qed

lemma argument_overflow:
  "result_of (argument_call d sc env (c, visited)) = Some None \<Longrightarrow>
   \<exists>x \<in> set (argument_types sc c). hasInformativeType d x env = None"
  by (auto simp: argument_call_def argument_variable_def argument_types_def
      split: if_splits option.splits)

lemma argument_results:
  assumes "ranked_source rank p env" and "definitions_in sc p" and "below (fst t) p"
  shows "\<exists>k. \<forall>d\<ge>k. result_of (argument_call d sc env t) \<noteq> Some None"
proof -
  have "converges (\<lambda>n. hasInformativeType n x env)" if "x \<in> set (argument_types sc (fst t))" for x
    using argument_types_below [OF assms(2,3) that] informative_below [OF assms(1)]
    unfolding converges_def by blast
  then obtain n where
    "\<forall>m\<ge>n. \<forall>x\<in>set (argument_types sc (fst t)). hasInformativeType m x env \<noteq> None"
    using converges_finite [of "set (argument_types sc (fst t))" "\<lambda>x n. hasInformativeType n x env"]
    by auto
  then show ?thesis using argument_overflow [of _ sc env "fst t" "snd t"] by fastforce
qed

lemma argument_converges:
  assumes "well_scoped sc" and "ranked_source rank p env" and "definitions_in sc p" and "below c p"
  shows "converges (\<lambda>d. hasKnownCallArgumentEvidence d sc c env [])"
  unfolding hasKnownCallArgumentEvidence_def
proof (rule linear_family_converges
    [where I = "\<lambda>st. below (fst st) p" and body = "\<lambda>d. argument_call d sc env"])
  show "converges (\<lambda>n. run_calls (argument_call 0 sc env) n (c, []))"
    using argument.calls_converge [of 0 "Abs_scope_manager sc" env "(c, [])"] scope_manager_abs [OF assms(1)]
    by simp
  show "below (fst b) p" if "below (fst a) p" "tail_of (argument_call 0 sc env a) = Some b" for a b
    using argument_tail_below [OF assms(3) that] .
  show "\<exists>k. \<forall>d\<ge>k. result_of (argument_call d sc env t) \<noteq> Some None" if "below (fst t) p" for t
    using argument_results [OF assms(2,3) that] .
  show "tail_of (argument_call d sc env s) = tail_of (argument_call 0 sc env s)" for d s
    by (rule argument_tails)
qed (use assms(4) argument_linear in auto)

lemma flow_converges:
  assumes "well_scoped sc" and "converges F"
  shows "converges (\<lambda>m. reportFlow m sc e (F m) subject)"
proof -
  obtain n where n: "\<forall>m\<ge>n. F m \<noteq> None" using assms(2) unfolding converges_def by blast
  obtain k where k: "\<forall>m\<ge>k. hasKnownEvidence m sc e [] \<noteq> None"
    using evidence_decides [OF assms(1), of e] by (metis option.distinct(1))
  have "reportFlow m sc e (F m) subject \<noteq> None" if "m \<ge> max n k" for m
    using n k that by (auto simp: reportFlow_def split: option.splits)
  then show ?thesis unfolding converges_def by blast
qed

lemma target_converges:
  assumes "ranked_source rank p env" and "\<And>a. annotation = Some a \<Longrightarrow> below a p"
  shows "converges (\<lambda>m. targetFromAnnotation m (Some env) annotation)"
proof (cases annotation)
  case None
  then show ?thesis by (simp add: targetFromAnnotation_def annotationTarget_def converges_def)
next
  case (Some a)
  then have "below (child a ''typeAnnotation'') p"
    using assms(2) by (blast intro: below_trans [OF below_child])
  then have "converges (\<lambda>m. classifyWideningTarget m (child a ''typeAnnotation'') env)"
    using assms(1) by (blast intro: widening_target_converges ranked_source_state)
  with Some show ?thesis by (simp add: targetFromAnnotation_def annotationTarget_def)
qed

lemma argument_flow_converges:
  assumes "well_scoped sc" and "ranked_source rank p env" and "definitions_in sc p" and "below argument p"
  shows "converges (\<lambda>m. widening_argument m sc env owner parameter argument)"
  using argument_converges [OF assms]
  by (auto simp: widening_argument_def converges_def split: option.split)

lemma opt_child_below: "opt_child c key = Some d \<Longrightarrow> below d c"
  by (auto simp: opt_child_def below_child split: if_splits)

lemma widening_handler_converges:
  assumes "well_scoped sc" and "ranked_source rank p env" and "definitions_in sc p"
    and "valid c" and "root c = focus p"
  shows "converges (\<lambda>m. widening_handler m sc (Some env) c)"
proof -
  have self: "below c p" and above: "\<And>a. a \<in> set (ancestors c) \<Longrightarrow> below a p"
    using valid_below_program [OF assms(4,5)] by auto
  have down: "below a p \<Longrightarrow> below (child a key) p" for a key
    by (blast intro: below_trans below_child)
  have ann: "opt_child a key = Some b \<Longrightarrow> below a p \<Longrightarrow> below b p" for a b key
    using opt_child_below by (blast intro: below_trans)
  have flow: "converges (\<lambda>m. reportFlow m sc e (targetFromAnnotation m (Some env) annotation) subject)"
    if "\<And>a. annotation = Some a \<Longrightarrow> below a p" for e annotation subject
    using target_converges [OF assms(2) that] by (rule flow_converges [OF assms(1)])
  have "converges (\<lambda>m. widening_VariableDeclarator m sc (Some env) c)"
    unfolding widening_VariableDeclarator_def
    using ann down self by (intro converges_if converges_const flow) blast
  moreover have "converges (\<lambda>m. widening_property m sc (Some env) c)"
    unfolding widening_property_def
    using ann self by (intro converges_if converges_const flow) blast
  moreover have "converges (\<lambda>m. widening_ArrowFunctionExpression m sc (Some env) c)"
    unfolding widening_ArrowFunctionExpression_def
    using ann self by (intro converges_if converges_const flow) blast
  moreover have "converges (\<lambda>m. widening_ReturnStatement m sc (Some env) c)"
  proof -
    have "below a p" if "(case enclosingFunction c of None \<Rightarrow> None | Some f \<Rightarrow> opt_child f ''returnType'') = Some a" for a
      using that above ann below_program_subset [of "ancestors c"]
      by (auto simp: enclosingFunction_def split: option.splits dest!: find_SomeD)
    then show ?thesis
      unfolding widening_ReturnStatement_def Let_def
      by (intro converges_if converges_const flow) blast
  qed
  moreover have "converges (\<lambda>m. widening_assertion m sc (Some env) c)"
  proof -
    have "converges (\<lambda>m. classifyWideningTarget m (child c ''typeAnnotation'') env)"
      using widening_target_converges ranked_source_state [OF assms(2)] down self by blast
    then have "converges (\<lambda>m. reportFlow m sc (child c ''expression'')
        (classifyWideningTarget m (child c ''typeAnnotation'') env) ''assertion'')"
      by (rule flow_converges [OF assms(1)])
    then show ?thesis
      unfolding widening_assertion_def option.case by (intro converges_if converges_const)
  qed
  moreover have "converges (\<lambda>m. widening_AssignmentExpression m sc (Some env) c)"
  proof -
    have "below a p" if "resolveVariable sc x = Some v" "variableDeclarator v = Some d"
      "opt_child (child d ''id'') ''typeAnnotation'' = Some a" for x v d a
      using below_declarator [OF assms(3) resolve_in_variables [OF that(1)] that(2)] down ann that(3)
      by blast
    then show ?thesis
      unfolding widening_AssignmentExpression_def
      by (intro converges_if converges_case_option converges_const flow) blast
  qed
  moreover have "converges (\<lambda>m. widening_CallExpression m sc (Some env) c)"
  proof -
    have "below a p" if "at_index (elems c ''arguments'') i = Some a" for a i
      using below_trans [OF below_elems [OF at_index_mem [OF that]] self] .
    then have "converges (\<lambda>m. widening_argument m sc env owner parameter a)"
      if "at_index (elems c ''arguments'') i = Some a" for owner parameter a i
      using that by (blast intro: argument_flow_converges [OF assms(1,2,3)])
    then show ?thesis
      unfolding widening_CallExpression_def option.case prod.case
      by (intro converges_if converges_case_option converges_const) blast
  qed
  ultimately show ?thesis
    unfolding widening_handler_def by (intro converges_if converges_const)
qed

text \<open>\<^verbatim>\<open>const x: Record<string, number> = { a: 1 }\<close>\<close>

definition widening_program :: cursor where
  "widening_program = Cursor (program_node
     [nd ''VariableDeclaration'' [(''kind'', Prim (PStr ''const'')), (''declarations'', Children
        [nd ''VariableDeclarator''
          [(''id'', Child (nd ''Identifier'' [(''name'', Prim (PStr ''x'')),
              (''typeAnnotation'', Child (type_annotation
                 (type_ref ''Record'' [nd ''TSStringKeyword'' [], nd ''TSNumberKeyword'' []])))])),
           (''init'', Child (nd ''ObjectExpression'' [(''properties'', Children
              [nd ''Property'' [(''key'', Child (ident ''a''))]])]))]])]]) []"

definition widening_declarator :: cursor where
  "widening_declarator = elems (elems widening_program ''body'' ! 0) ''declarations'' ! 0"

definition widening_env :: type_environment where
  "widening_env = fst (createTypeEnvironment widening_program example_keys (\<lambda>_. None))"

definition fresh_widening_state :: widening_rule_state where
  "fresh_widening_state = \<lparr>wr_environment = None, wr_cache = \<lambda>_. None\<rparr>"

lemma widening_env_ranked: "ranked_source (\<lambda>_. 0) widening_program widening_env"
proof -
  have "env_ok (typeAliases widening_env)" by (simp add: widening_env_def create_environment_ok)
  moreover have "list_all (ranked_alias (\<lambda>_. 0) (typeAliases widening_env))
      (aliases (typeAliases widening_env))" by code_simp
  moreover have "ranked_arguments (\<lambda>_. 0) (typeAliases widening_env) (focus widening_program)"
    by code_simp
  ultimately show ?thesis by (simp add: ranked_source_def ranked_program_def)
qed

subsection \<open>Properties\<close>

text \<open>
  C16: with enough stack no-known-value-widening completes its run on every program for which
  the names of alias parameters can be ranked so that arguments for a parameter, and its
  default, mention only alias parameter names of lower rank or are just the parameter's own
  name; also when constants are initialized from themselves.
\<close>

theorem widening_rule_returns:
  assumes "kind p = ''Program''" and "well_scoped sc" and "definitions_in sc p"
    and "ranked_source rank p (fst (createTypeEnvironment p (sc_visitorKeys sc) (wr_cache st)))"
    and "\<forall>c \<in> set cs. valid c \<and> root c = focus p \<and> kind c \<noteq> ''Program''"
  shows "\<exists>n. \<forall>m\<ge>n. run_listener (noKnownValueWideningRule m) sc (p # cs) st \<noteq> None"
proof -
  let ?env = "fst (createTypeEnvironment p (sc_visitorKeys sc) (wr_cache st))"
  let ?st = "\<lparr>wr_environment = Some ?env,
    wr_cache = snd (createTypeEnvironment p (sc_visitorKeys sc) (wr_cache st))\<rparr>"
  have "converges (\<lambda>m. widening_handler m sc (Some ?env) c)" if "c \<in> set cs" for c
    using assms(5) that by (intro widening_handler_converges [OF assms(2,4,3)]) auto
  then obtain n where n: "\<forall>m\<ge>n. \<forall>c\<in>set cs. widening_handler m sc (Some ?env) c \<noteq> None"
    using converges_finite [of "set cs" "\<lambda>c m. widening_handler m sc (Some ?env) c"] by auto
  have "run_listener (noKnownValueWideningRule m) sc (p # cs) st \<noteq> None" if "m \<ge> n" for m
  proof -
    have "\<exists>rs. noKnownValueWideningRule m sc c ?st = Some (?st, rs)" if "c \<in> set cs" for c
      using n \<open>m \<ge> n\<close> assms(5) that by (auto simp: noKnownValueWideningRule_def)
    then have "run_listener (noKnownValueWideningRule m) sc cs ?st \<noteq> None"
      by (rule run_listener_total)
    moreover have "noKnownValueWideningRule m sc p st = Some (?st, [])"
      by (simp add: noKnownValueWideningRule_def assms(1) case_prod_beta)
    ultimately show ?thesis by simp
  qed
  then show ?thesis by blast
qed

theorem widening_rule_returns_witness:
  "\<exists>n. \<forall>m\<ge>n. run_listener (noKnownValueWideningRule m) example_source
     (widening_program # [widening_declarator]) fresh_widening_state \<noteq> None"
proof (rule widening_rule_returns)
  show "kind widening_program = ''Program''" by code_simp
  show "well_scoped example_source" by (rule example_well_scoped)
  show "definitions_in example_source widening_program"
    by (simp add: definitions_in_def variables_def example_source_def)
  show "ranked_source (\<lambda>_. 0) widening_program (fst (createTypeEnvironment widening_program
      (sc_visitorKeys example_source) (wr_cache fresh_widening_state)))"
    using widening_env_ranked
    by (simp add: widening_env_def example_source_def fresh_widening_state_def)
  show "\<forall>c \<in> set [widening_declarator].
      valid c \<and> root c = focus widening_program \<and> kind c \<noteq> ''Program''" by code_simp
qed

text \<open>
  C10: a value flowing into a broad target is reported exactly when following constant
  initializers without a visited set finds evidence for it, except an empty object that
  starts a dictionary.
\<close>

theorem flow_reported:
  assumes "well_scoped sc"
  shows "\<exists>n. \<forall>m\<ge>n. \<exists>rs. reportFlow m sc e (Some (Some target)) subject = Some rs \<and>
    (rs \<noteq> [] \<longleftrightarrow>
       (isDictionaryAccumulatorTarget target \<and> isEmptyObject e) = False \<and>
       plain_result (evidence_plain sc) False e True)"
proof -
  obtain n where n: "\<forall>m\<ge>n. \<exists>r. hasKnownEvidence m sc e [] = Some r \<and>
      plain_result (evidence_plain sc) False e r"
    using evidence_decides [OF assms] by blast
  have "\<exists>rs. reportFlow m sc e (Some (Some target)) subject = Some rs \<and>
    (rs \<noteq> [] \<longleftrightarrow> (isDictionaryAccumulatorTarget target \<and> isEmptyObject e) = False \<and>
       plain_result (evidence_plain sc) False e True)" if "m \<ge> n" for m
  proof -
    obtain r where r: "hasKnownEvidence m sc e [] = Some r" "plain_result (evidence_plain sc) False e r"
      using n \<open>m \<ge> n\<close> by blast
    then have "plain_result (evidence_plain sc) False e True \<longleftrightarrow> r"
      using plain_result_unique by metis
    with r show ?thesis by (auto simp: reportFlow_def)
  qed
  then show ?thesis by blast
qed

theorem flow_reported_witness:
  "\<exists>n. \<forall>m\<ge>n. \<exists>rs. reportFlow m example_source (child widening_declarator ''init'')
     (Some (Some OpenDictionary)) ''binding'' = Some rs \<and> rs \<noteq> []"
proof -
  have "evidence_plain example_source (child widening_declarator ''init'') = Inl True" by code_simp
  then have "plain_result (evidence_plain example_source) False
      (child widening_declarator ''init'') True"
    unfolding plain_result_def by (intro disjI1 exI [of _ 1]) simp
  moreover have "\<not> isEmptyObject (child widening_declarator ''init'')" by code_simp
  ultimately show ?thesis
    using flow_reported [OF example_well_scoped, of "child widening_declarator ''init''"
        OpenDictionary "''binding''"] by simp
qed

end
