(* ===== verification/Widen_Then_Assert.thy ===== *)
theory Widen_Then_Assert
  imports Type_Resolution Lint_Context
begin

text \<open>
  The rule \<^verbatim>\<open>no-widen-then-assert\<close>: a constant whose known value is widened by its declaration,
  through an annotation or an assertion, and that is later asserted to a narrower type in the
  same function.

  The references of the scope manager are searched by source position; the evidence for a value
  is followed through constant initializers of the same function, with a set of visited variables.
\<close>

datatype broad_kind = BroadTop | BroadObject | BroadRecord

definition functionBoundaryTypes :: "string list" where
  "functionBoundaryTypes =
     [''ArrowFunctionExpression'', ''FunctionDeclaration'', ''FunctionExpression'',
      ''TSDeclareFunction'', ''TSEmptyBodyFunctionExpression'']"

definition unwrapExpressionParentheses :: "cursor \<Rightarrow> cursor" where
  "unwrapExpressionParentheses expression =
     unwrap_while (\<lambda>c. kind c = ''ParenthesizedExpression'') ''expression'' expression"

definition unwrapTypeParentheses :: "cursor \<Rightarrow> cursor" where
  "unwrapTypeParentheses type =
     unwrap_while (\<lambda>c. kind c = ''TSParenthesizedType'') ''typeAnnotation'' type"

lemma size_unwrap_type: "size (focus (unwrapTypeParentheses c)) \<le> size (focus c)"
  unfolding unwrapTypeParentheses_def by (rule size_unwrap_while)

subsection \<open>Broad types\<close>

definition isUnknownOrAnyType :: "cursor \<Rightarrow> bool" where
  "isUnknownOrAnyType type =
     (let unwrapped = unwrapTypeParentheses type in
      kind unwrapped = ''TSUnknownKeyword'' \<or> kind unwrapped = ''TSAnyKeyword'')"

lemma size_unwrapped_elems:
  "d \<in> set (elems (unwrapTypeParentheses c) key) \<Longrightarrow> size (focus d) < size (focus c)"
  using size_elems [of d "unwrapTypeParentheses c" key] size_unwrap_type [of c] by simp

lemma size_unwrapped_argument:
  "kind (unwrapTypeParentheses c) = ''TSTypeReference'' \<Longrightarrow>
   at_index (type_arguments (unwrapTypeParentheses c)) i = Some d \<Longrightarrow> size (focus d) < size (focus c)"
  using type_arguments_smaller [of "unwrapTypeParentheses c" d] at_index_mem size_unwrap_type [of c]
  by fastforce

lemma size_unwrapped_child:
  "kind (unwrapTypeParentheses c) = k \<Longrightarrow> k \<noteq> '''' \<Longrightarrow>
   size (focus (child (unwrapTypeParentheses c) key)) < size (focus c)"
  using size_child [OF kind_not_absent, of "unwrapTypeParentheses c" k key] size_unwrap_type [of c]
  by simp

function isBroadRecordKeyType :: "cursor \<Rightarrow> bool" where
  "isBroadRecordKeyType type =
     (let unwrapped = unwrapTypeParentheses type in
      if kind unwrapped \<in> {''TSStringKeyword'', ''TSNumberKeyword'', ''TSSymbolKeyword''} then True
      else if kind unwrapped = ''TSUnionType''
      then list_all isBroadRecordKeyType (elems unwrapped ''types'')
      else kind unwrapped = ''TSTypeReference'' \<and>
           typeReferenceName unwrapped = Some ''PropertyKey'')"
  by pat_completeness auto
termination
  by (relation "measure (\<lambda>c. size (focus c))") (auto simp: size_unwrapped_elems)

declare isBroadRecordKeyType.simps [simp del]

definition broad_record_arguments :: "cursor list \<Rightarrow> bool" where
  "broad_record_arguments parameters =
     (case parameters of
        [k, v] \<Rightarrow> isBroadRecordKeyType k \<and> isUnknownOrAnyType v
      | _ \<Rightarrow> False)"

definition broad_index_signature :: "cursor \<Rightarrow> bool" where
  "broad_index_signature member \<longleftrightarrow>
     kind member = ''TSIndexSignature'' \<and>
     (case elems member ''parameters'' of
        [parameter] \<Rightarrow>
          isBroadRecordKeyType (child (child parameter ''typeAnnotation'') ''typeAnnotation'') \<and>
          isUnknownOrAnyType (child (child member ''typeAnnotation'') ''typeAnnotation'')
      | _ \<Rightarrow> False)"

function isBroadRecordType :: "cursor \<Rightarrow> bool" where
  "isBroadRecordType type =
     (let unwrapped = unwrapTypeParentheses type in
      if kind unwrapped = ''TSTypeReference'' then
        (if typeReferenceName unwrapped = Some ''Readonly''
         then (case at_index (type_arguments unwrapped) 0 of
                 None \<Rightarrow> False | Some inner \<Rightarrow> isBroadRecordType inner)
         else if typeReferenceName unwrapped \<noteq> Some ''Record'' then False
         else broad_record_arguments (type_arguments unwrapped))
      else if kind unwrapped \<noteq> ''TSTypeLiteral'' then False
      else (case elems unwrapped ''members'' of
              [member] \<Rightarrow> broad_index_signature member
            | _ \<Rightarrow> False))"
  by pat_completeness auto
termination
  by (relation "measure (\<lambda>c. size (focus c))") (auto simp: size_unwrapped_argument)

declare isBroadRecordType.simps [simp del]

definition broadTypeKind :: "cursor \<Rightarrow> broad_kind option" where
  "broadTypeKind type =
     (let unwrapped = unwrapTypeParentheses type in
      if kind unwrapped = ''TSUnknownKeyword'' \<or> kind unwrapped = ''TSAnyKeyword'' then Some BroadTop
      else if kind unwrapped = ''TSObjectKeyword'' then Some BroadObject
      else if isBroadRecordType unwrapped then Some BroadRecord else None)"

subsection \<open>Assertions\<close>

definition assertedExpression :: "cursor \<Rightarrow> cursor" where
  "assertedExpression node = unwrapExpressionParentheses (child node ''expression'')"

definition assertionFromExpression :: "cursor \<Rightarrow> cursor option" where
  "assertionFromExpression expression =
     (let unwrapped = unwrapExpressionParentheses expression in
      if kind unwrapped = ''TSAsExpression'' \<or> kind unwrapped = ''TSTypeAssertion''
      then Some unwrapped else None)"

definition normalizedTypeText :: "string \<Rightarrow> cursor \<Rightarrow> string" where
  "normalizedTypeText text type =
     filter (\<lambda>ch. \<not> js_space ch) (drop (startp type) (take (endp type) text))"

definition typesHaveSameSyntax :: "string \<Rightarrow> cursor option \<Rightarrow> cursor \<Rightarrow> bool" where
  "typesHaveSameSyntax text left right =
     (case left of
        None \<Rightarrow> False
      | Some l \<Rightarrow> normalizedTypeText text (unwrapTypeParentheses l) =
                  normalizedTypeText text (unwrapTypeParentheses right))"

function isDefinitelyObjectType :: "cursor \<Rightarrow> bool" where
  "isDefinitelyObjectType type =
     (let unwrapped = unwrapTypeParentheses type in
      if kind unwrapped \<in> {''TSArrayType'', ''TSConstructorType'', ''TSFunctionType'',
           ''TSMappedType'', ''TSObjectKeyword'', ''TSTupleType''} then True
      else if kind unwrapped = ''TSTypeLiteral'' then length (elems unwrapped ''members'') > 0
      else if kind unwrapped = ''TSIntersectionType''
      then list_all isDefinitelyObjectType (elems unwrapped ''types'')
      else if kind unwrapped = ''TSTypeOperator''
      then str_of unwrapped ''operator'' = ''readonly'' \<and>
           isDefinitelyObjectType (child unwrapped ''typeAnnotation'')
      else False)"
  by pat_completeness auto
termination
  by (relation "measure (\<lambda>c. size (focus c))")
    (auto simp: size_unwrapped_elems size_unwrapped_child simp del: focus_child)

declare isDefinitelyObjectType.simps [simp del]

function isDefinitelyNarrowerRecordType :: "cursor \<Rightarrow> bool" where
  "isDefinitelyNarrowerRecordType type =
     (let unwrapped = unwrapTypeParentheses type in
      if kind unwrapped = ''TSTypeLiteral''
      then list_ex (\<lambda>m. kind m \<noteq> ''TSIndexSignature'') (elems unwrapped ''members'')
      else if kind unwrapped \<noteq> ''TSTypeReference'' then False
      else if typeReferenceName unwrapped = Some ''Readonly''
      then (case at_index (type_arguments unwrapped) 0 of
              None \<Rightarrow> False | Some inner \<Rightarrow> isDefinitelyNarrowerRecordType inner)
      else if typeReferenceName unwrapped \<noteq> Some ''Record'' then False
      else (case type_arguments unwrapped of
              [k, v] \<Rightarrow> \<not> isUnknownOrAnyType v
            | _ \<Rightarrow> False))"
  by pat_completeness auto
termination
  by (relation "measure (\<lambda>c. size (focus c))") (auto simp: size_unwrapped_argument)

declare isDefinitelyNarrowerRecordType.simps [simp del]

subsection \<open>Bindings\<close>

definition functionBoundary :: "cursor \<Rightarrow> cursor option" where
  "functionBoundary node =
     find (\<lambda>c. kind c \<in> set functionBoundaryTypes) (below_program (ancestors node))"

fun resolvedVariableForIdentifier ::
    "scope_reference list list \<Rightarrow> cursor \<Rightarrow> variable option" where
  "resolvedVariableForIdentifier [] identifier = None"
| "resolvedVariableForIdentifier (refs # rest) identifier =
     (case find (\<lambda>r. startp (sref_identifier r) = startp identifier \<and>
                      endp (sref_identifier r) = endp identifier) refs of
        Some r \<Rightarrow> sref_resolved r
      | None \<Rightarrow> resolvedVariableForIdentifier rest identifier)"

definition declaratorOf :: "variable \<Rightarrow> cursor option" where
  "declaratorOf v =
     map_option def_node
       (find (\<lambda>d. def_type d = ''Variable'' \<and> kind (def_node d) = ''VariableDeclarator'') (var_defs v))"

definition const_declarator :: "cursor \<Rightarrow> bool" where
  "const_declarator declarator =
     (case parent declarator of
        None \<Rightarrow> False
      | Some p \<Rightarrow> kind p = ''VariableDeclaration'' \<and> str_of p ''kind'' = ''const'')"

text \<open>Evidence is \<open>None\<close>, or \<open>Some t\<close> with the known type \<open>t\<close> when it is written in the source.\<close>

type_synonym evidence = "cursor option option"

definition value_kinds :: "string list" where
  "value_kinds =
     [''Literal'', ''TemplateLiteral'', ''ArrayExpression'', ''ArrowFunctionExpression'',
      ''ClassExpression'', ''FunctionExpression'', ''NewExpression'', ''ObjectExpression'']"

definition evidence_of_variable ::
    "cursor option \<Rightarrow> variable \<Rightarrow> nat list \<Rightarrow> (cursor \<times> nat list, evidence) call" where
  "evidence_of_variable boundary v visited =
     (if var_id v \<in> set visited then Done None
      else case find (\<lambda>i. \<not> null (child i ''typeAnnotation'')) (var_identifiers v) of
             Some identifier \<Rightarrow>
               let annotation = child (child identifier ''typeAnnotation'') ''typeAnnotation'' in
               if functionBoundary identifier \<noteq> boundary \<or> broadTypeKind annotation \<noteq> None
               then Done None else Done (Some (Some annotation))
           | None \<Rightarrow>
               (case declaratorOf v of
                  None \<Rightarrow> Done None
                | Some declarator \<Rightarrow>
                    if \<not> const_declarator declarator \<or> null (child declarator ''init'') \<or>
                       reassigned v \<or> functionBoundary declarator \<noteq> boundary
                    then Done None
                    else Tail (child declarator ''init'', var_id v # visited)))"

definition value_evidence_call ::
    "scope_reference list list \<Rightarrow> cursor option \<Rightarrow> cursor \<times> nat list \<Rightarrow>
     (cursor \<times> nat list, evidence) call" where
  "value_evidence_call scopes boundary st =
     (case st of (expression, visited) \<Rightarrow>
        let unwrapped = unwrapExpressionParentheses expression in
        if kind unwrapped = ''TSAsExpression'' \<or> kind unwrapped = ''TSTypeAssertion''
        then Done (if broadTypeKind (child unwrapped ''typeAnnotation'') \<noteq> None then None
                   else Some (Some (child unwrapped ''typeAnnotation'')))
        else if kind unwrapped \<in> set value_kinds then Done (Some None)
        else if kind unwrapped \<noteq> ''Identifier'' then Done None
        else case resolvedVariableForIdentifier scopes unwrapped of
               None \<Rightarrow> Done None
             | Some v \<Rightarrow> evidence_of_variable boundary v visited)"

definition knownValueEvidence ::
    "nat \<Rightarrow> cursor \<Rightarrow> scope_reference list list \<Rightarrow> cursor option \<Rightarrow> nat list \<Rightarrow> evidence option" where
  "knownValueEvidence depth expression scopes boundary visited =
     run_calls (value_evidence_call scopes boundary) depth (expression, visited)"

record widened_binding =
  wb_broadKind :: broad_kind
  wb_evidence :: "cursor option"
  wb_declaredAt :: nat
  wb_boundary :: "cursor option"

definition widenedBinding ::
    "nat \<Rightarrow> variable \<Rightarrow> scope_reference list list \<Rightarrow> widened_binding option option" where
  "widenedBinding depth v scopes =
     (case declaratorOf v of
        None \<Rightarrow> Some None
      | Some declarator \<Rightarrow>
          if \<not> const_declarator declarator \<or> kind (child declarator ''id'') \<noteq> ''Identifier'' \<or>
             null (child declarator ''init'') \<or> reassigned v
          then Some None
          else
            let boundary = functionBoundary declarator;
                declaredType =
                  (case opt_child (child declarator ''id'') ''typeAnnotation'' of
                     None \<Rightarrow> None | Some a \<Rightarrow> Some (child a ''typeAnnotation''));
                initializerAssertion = assertionFromExpression (child declarator ''init'');
                initializerBroadKind =
                  (case initializerAssertion of
                     None \<Rightarrow> None | Some a \<Rightarrow> broadTypeKind (child a ''typeAnnotation''));
                declaredBroadKind =
                  (case declaredType of None \<Rightarrow> None | Some t \<Rightarrow> broadTypeKind t);
                broadKind =
                  (case declaredBroadKind of Some k \<Rightarrow> Some k | None \<Rightarrow> initializerBroadKind)
            in case broadKind of
                 None \<Rightarrow> Some None
               | Some bk \<Rightarrow>
                   let originalExpression =
                     (case (initializerAssertion, initializerBroadKind) of
                        (Some a, Some _) \<Rightarrow> assertedExpression a
                      | _ \<Rightarrow> child declarator ''init'')
                   in map_option (\<lambda>evidence.
                        case evidence of
                          None \<Rightarrow> None
                        | Some t \<Rightarrow> Some \<lparr>wb_broadKind = bk, wb_evidence = t,
                                          wb_declaredAt = endp declarator, wb_boundary = boundary\<rparr>)
                      (knownValueEvidence depth originalExpression scopes boundary [var_id v]))"

definition assertionIsNarrower ::
    "string \<Rightarrow> broad_kind \<Rightarrow> cursor option \<Rightarrow> cursor \<Rightarrow> bool" where
  "assertionIsNarrower text broadKind evidence_type assertedType =
     (if broadTypeKind assertedType \<noteq> None then False
      else if broadKind = BroadTop then True
      else if typesHaveSameSyntax text evidence_type assertedType then True
      else if broadKind = BroadObject then isDefinitelyObjectType assertedType
      else isDefinitelyNarrowerRecordType assertedType)"

subsection \<open>The rule\<close>

definition widenThenAssert_check ::
    "nat \<Rightarrow> source_code \<Rightarrow> scope_reference list list \<Rightarrow> cursor \<Rightarrow> report list option" where
  "widenThenAssert_check depth sc scopes node =
     (let expression = assertedExpression node in
      if kind expression \<noteq> ''Identifier'' then Some []
      else case resolvedVariableForIdentifier scopes expression of
             None \<Rightarrow> Some []
           | Some v \<Rightarrow>
               map_option (\<lambda>widened.
                 case widened of
                   None \<Rightarrow> []
                 | Some w \<Rightarrow>
                     if startp node \<le> wb_declaredAt w \<or> functionBoundary node \<noteq> wb_boundary w \<or>
                        \<not> assertionIsNarrower (sourceText sc) (wb_broadKind w) (wb_evidence w)
                            (child node ''typeAnnotation'')
                     then []
                     else [\<lparr>rnode = node, messageId = ''widenThenAssert'',
                            rdata = [(''name'', identifier_name expression)]\<rparr>])
                 (widenedBinding depth v scopes))"

text \<open>The state is the list of scopes, empty until the program is entered.\<close>

definition noWidenThenAssertRule :: "nat \<Rightarrow> scope_reference list list listener" where
  "noWidenThenAssertRule depth sc node scopes =
     (if kind node = ''Program'' then Some (scopeReferences sc, [])
      else if kind node = ''TSAsExpression'' \<or> kind node = ''TSTypeAssertion''
      then map_option (Pair scopes) (widenThenAssert_check depth sc scopes node)
      else Some (scopes, []))"

subsection \<open>Evidence without visited variables\<close>

lemma resolved_reference_in_variables:
  "resolvedVariableForIdentifier (scopeReferences sc) c = Some v \<Longrightarrow> v \<in> variables sc"
proof -
  have "resolvedVariableForIdentifier scopes c = Some v \<Longrightarrow>
      \<exists>refs \<in> set scopes. \<exists>r \<in> set refs. sref_resolved r = Some v" for scopes
    by (induction scopes) (auto split: option.splits dest!: find_SomeD)
  then show "resolvedVariableForIdentifier (scopeReferences sc) c = Some v \<Longrightarrow> ?thesis"
    by (auto simp: variables_def)
qed

definition value_variable :: "scope_reference list list \<Rightarrow> cursor \<Rightarrow> nat option" where
  "value_variable scopes c =
     (if kind (unwrapExpressionParentheses c) = ''Identifier''
      then map_option var_id (resolvedVariableForIdentifier scopes (unwrapExpressionParentheses c))
      else None)"

definition value_evidence_plain ::
    "scope_reference list list \<Rightarrow> cursor option \<Rightarrow> cursor \<Rightarrow> evidence + cursor" where
  "value_evidence_plain scopes boundary c =
     (case value_evidence_call scopes boundary (c, []) of
        Done r \<Rightarrow> Inl r | Tail d \<Rightarrow> Inr (fst d) | _ \<Rightarrow> Inl None)"

lemma value_call_variable:
  assumes "kind (unwrapExpressionParentheses c) = ''Identifier''"
    and "resolvedVariableForIdentifier scopes (unwrapExpressionParentheses c) = Some v"
  shows "value_evidence_call scopes boundary (c, visited) = evidence_of_variable boundary v visited"
  using assms by (simp add: value_evidence_call_def value_kinds_def)

lemma evidence_of_variable_cases:
  assumes "var_id v \<notin> set visited"
  shows "evidence_of_variable boundary v visited =
    case_sum Done (\<lambda>d. Tail (d, var_id v # visited))
      (case evidence_of_variable boundary v [] of
         Done r \<Rightarrow> Inl r | Tail d \<Rightarrow> Inr (fst d) | _ \<Rightarrow> Inl None)"
  using assms by (auto simp: evidence_of_variable_def Let_def split: option.split)

interpretation value_evidence: variable_chain
  "value_evidence_call (scopeReferences (Rep_scope_manager m)) boundary"
  "value_evidence_plain (scopeReferences (Rep_scope_manager m)) boundary"
  "value_variable (scopeReferences (Rep_scope_manager m))" None
  "var_id ` variables (Rep_scope_manager m)"
  for m :: scope_manager and boundary :: "cursor option"
proof (unfold_locales, goal_cases)
  case 1
  then show ?case by (rule well_scopedD(1) [OF scope_manager_rep])
next
  case (2 c v)
  then show ?case
    by (auto simp: value_variable_def split: if_splits dest: resolved_reference_in_variables)
next
  case (3 c v visited)
  then show ?case
    by (auto simp: value_variable_def value_call_variable evidence_of_variable_def split: if_splits)
next
  case (4 c v visited)
  then obtain x where "v = var_id x"
    "kind (unwrapExpressionParentheses c) = ''Identifier''"
    "resolvedVariableForIdentifier (scopeReferences (Rep_scope_manager m))
       (unwrapExpressionParentheses c) = Some x"
    by (auto simp: value_variable_def split: if_splits)
  with 4 show ?case
    using evidence_of_variable_cases [of x visited boundary]
    by (auto simp: value_evidence_plain_def value_call_variable)
next
  case (5 c visited)
  then show ?case
    by (auto simp: value_variable_def value_evidence_plain_def value_evidence_call_def Let_def
        split: if_splits option.splits)
next
  case (6 c d)
  then show ?case
    by (auto simp: value_variable_def value_evidence_plain_def value_evidence_call_def Let_def
        split: if_splits option.splits)
next
  case (7 c v c')
  then obtain x y where x: "kind (unwrapExpressionParentheses c) = ''Identifier''"
    "resolvedVariableForIdentifier (scopeReferences (Rep_scope_manager m))
       (unwrapExpressionParentheses c) = Some x" "var_id x = v"
    and y: "kind (unwrapExpressionParentheses c') = ''Identifier''"
    "resolvedVariableForIdentifier (scopeReferences (Rep_scope_manager m))
       (unwrapExpressionParentheses c') = Some y" "var_id y = v"
    by (auto simp: value_variable_def split: if_splits)
  then have "x = y"
    using well_scopedD(2) [OF scope_manager_rep] resolved_reference_in_variables by metis
  with x y show ?case by (simp add: value_evidence_plain_def value_call_variable)
qed

lemma value_evidence_converges:
  assumes "well_scoped sc"
  shows "converges (\<lambda>n. knownValueEvidence n e (scopeReferences sc) boundary visited)"
  using value_evidence.calls_converge [of "Abs_scope_manager sc" boundary "(e, visited)"]
    scope_manager_abs [OF assms]
  by (simp add: knownValueEvidence_def)

lemma value_evidence_sound:
  assumes "well_scoped sc"
    and "knownValueEvidence n e (scopeReferences sc) boundary visited = Some (Some t)"
  shows "\<exists>k. plain_run (value_evidence_plain (scopeReferences sc) boundary) k e = Some (Some t)"
  using value_evidence.visited_sound [of "Abs_scope_manager sc" boundary n e visited "Some t"]
    scope_manager_abs [OF assms(1)] assms(2)
  by (simp add: knownValueEvidence_def)

lemma widened_binding_converges:
  assumes "well_scoped sc"
  shows "converges (\<lambda>n. widenedBinding n v (scopeReferences sc))"
proof -
  have "converges (\<lambda>n. map_option f (knownValueEvidence n e (scopeReferences sc) boundary visited))"
    for f e boundary visited
    using value_evidence_converges [OF assms, of e boundary visited] by (simp add: converges_def)
  then show ?thesis
    unfolding widenedBinding_def Let_def
    by (intro converges_case_option converges_if converges_const)
qed

lemma widen_check_converges:
  assumes "well_scoped sc"
  shows "converges (\<lambda>n. widenThenAssert_check n sc (scopeReferences sc) node)"
proof -
  have "converges (\<lambda>n. map_option f (widenedBinding n v (scopeReferences sc)))" for f v
    using widened_binding_converges [OF assms, of v] by (simp add: converges_def)
  then show ?thesis
    unfolding widenThenAssert_check_def Let_def
    by (intro converges_case_option converges_if converges_const)
qed

text \<open>
  How a declaration widens a value: by a broad annotation, by a broad assertion around the
  value, or by both, when the annotation decides the kind.
\<close>

definition broad_annotation :: "cursor \<Rightarrow> broad_kind option" where
  "broad_annotation declarator =
     (let annotation = child (child declarator ''id'') ''typeAnnotation'' in
      if null annotation then None else broadTypeKind (child annotation ''typeAnnotation''))"

inductive broad_assertion :: "cursor \<Rightarrow> broad_kind \<Rightarrow> cursor \<Rightarrow> bool" where
  broad_assertionI: "assertionFromExpression e = Some a \<Longrightarrow>
    broadTypeKind (child a ''typeAnnotation'') = Some k \<Longrightarrow> broad_assertion e k (assertedExpression a)"

inductive widens :: "cursor \<Rightarrow> broad_kind \<Rightarrow> cursor \<Rightarrow> bool" where
  widens_annotation: "broad_annotation d = Some k \<Longrightarrow>
    (\<nexists>k' e. broad_assertion (child d ''init'') k' e) \<Longrightarrow> widens d k (child d ''init'')"
| widens_both: "broad_annotation d = Some k \<Longrightarrow> broad_assertion (child d ''init'') k' e \<Longrightarrow> widens d k e"
| widens_assertion: "broad_annotation d = None \<Longrightarrow> broad_assertion (child d ''init'') k e \<Longrightarrow> widens d k e"

lemma widensI:
  assumes "(case broad_annotation d of Some k \<Rightarrow> Some k | None \<Rightarrow> initial) = Some k"
    and "assertion = assertionFromExpression (child d ''init'')"
    and "initial = (case assertion of None \<Rightarrow> None | Some a \<Rightarrow> broadTypeKind (child a ''typeAnnotation''))"
  shows "widens d k (case (assertion, initial) of
    (Some a, Some _) \<Rightarrow> assertedExpression a | _ \<Rightarrow> child d ''init'')"
proof (cases initial)
  case None
  then have "\<nexists>k' e. broad_assertion (child d ''init'') k' e"
    using assms(2,3) by (auto elim!: broad_assertion.cases)
  with None assms(1) show ?thesis
    by (auto split: option.splits intro: widens_annotation)
next
  case (Some k0)
  then obtain a where a: "assertion = Some a" "broadTypeKind (child a ''typeAnnotation'') = Some k0"
    using assms(3) by (auto split: option.splits)
  then have "broad_assertion (child d ''init'') k0 (assertedExpression a)"
    using assms(2) by (auto intro: broad_assertionI)
  with Some a assms(1) show ?thesis
    by (auto split: option.splits intro: widens_both widens_assertion)
qed

lemma widened_bindingD:
  assumes "widenedBinding depth v scopes = Some (Some w)"
  obtains declarator expression where "declaratorOf v = Some declarator"
    and "const_declarator declarator" and "\<not> reassigned v"
    and "wb_declaredAt w = endp declarator" and "wb_boundary w = functionBoundary declarator"
    and "widens declarator (wb_broadKind w) expression"
    and "knownValueEvidence depth expression scopes (functionBoundary declarator) [var_id v] =
      Some (Some (wb_evidence w))"
proof -
  from assms obtain declarator where d: "declaratorOf v = Some declarator"
    by (auto simp: widenedBinding_def split: option.splits)
  let ?assertion = "assertionFromExpression (child declarator ''init'')"
  let ?initial = "case ?assertion of None \<Rightarrow> None | Some a \<Rightarrow> broadTypeKind (child a ''typeAnnotation'')"
  define e where "e = (case (?assertion, ?initial) of
      (Some a, Some _) \<Rightarrow> assertedExpression a | _ \<Rightarrow> child declarator ''init'')"
  from assms d have ok: "const_declarator declarator" "\<not> reassigned v"
    "kind (child declarator ''id'') = ''Identifier''" "\<not> null (child declarator ''init'')"
    by (auto simp: widenedBinding_def split: if_splits)
  have "widenedBinding depth v scopes =
      (case (case broad_annotation declarator of Some k \<Rightarrow> Some k | None \<Rightarrow> ?initial) of
         None \<Rightarrow> Some None
       | Some bk \<Rightarrow> map_option (\<lambda>evidence. case evidence of None \<Rightarrow> None | Some t \<Rightarrow>
             Some \<lparr>wb_broadKind = bk, wb_evidence = t, wb_declaredAt = endp declarator,
               wb_boundary = functionBoundary declarator\<rparr>)
           (knownValueEvidence depth e scopes (functionBoundary declarator) [var_id v]))"
    unfolding widenedBinding_def Let_def e_def broad_annotation_def opt_child_def using d ok
    by (cases "null (child (child declarator ''id'') ''typeAnnotation'')") simp_all
  with assms obtain bk t where
    "(case broad_annotation declarator of Some k \<Rightarrow> Some k | None \<Rightarrow> ?initial) = Some bk"
    "knownValueEvidence depth e scopes (functionBoundary declarator) [var_id v] = Some (Some t)"
    "w = \<lparr>wb_broadKind = bk, wb_evidence = t, wb_declaredAt = endp declarator,
        wb_boundary = functionBoundary declarator\<rparr>"
    by (auto split: option.splits)
  moreover have "widens declarator bk e" if
    "(case broad_annotation declarator of Some k \<Rightarrow> Some k | None \<Rightarrow> ?initial) = Some bk" for bk
    unfolding e_def using that by (rule widensI) simp_all
  ultimately show thesis using d ok by (intro that [of declarator e]) auto
qed

text \<open>An assertion is narrower than a broad type of kind \<open>k\<close> that hides a value of type \<open>t\<close>.\<close>

definition narrows :: "string \<Rightarrow> broad_kind \<Rightarrow> cursor option \<Rightarrow> cursor \<Rightarrow> bool" where
  "narrows text k t asserted \<longleftrightarrow>
     broadTypeKind asserted = None \<and>
     (k = BroadTop \<or> typesHaveSameSyntax text t asserted \<or>
      k = BroadObject \<and> isDefinitelyObjectType asserted \<or>
      k = BroadRecord \<and> isDefinitelyNarrowerRecordType asserted)"

lemma assertion_narrower_iff: "assertionIsNarrower text k t asserted \<longleftrightarrow> narrows text k t asserted"
  by (cases k) (auto simp: assertionIsNarrower_def narrows_def)

text \<open>\<^verbatim>\<open>const x: unknown = 1; x as number\<close>\<close>

definition at_pos :: "nat \<Rightarrow> nat \<Rightarrow> node \<Rightarrow> node" where
  "at_pos a b n =
     (case n of
        Absent \<Rightarrow> Absent
      | Node k sp fs \<Rightarrow> Node k \<lparr>start_pos = a, end_pos = b, start_line = 1, end_line = 1\<rparr> fs)"

definition widened_program :: cursor where
  "widened_program = Cursor (program_node
     [nd ''VariableDeclaration'' [(''kind'', Prim (PStr ''const'')), (''declarations'', Children
        [at_pos 6 20 (nd ''VariableDeclarator''
          [(''id'', Child (nd ''Identifier'' [(''name'', Prim (PStr ''x'')),
              (''typeAnnotation'', Child (type_annotation (nd ''TSUnknownKeyword'' [])))])),
           (''init'', Child (nd ''Literal'' [(''value'', Prim (PNum 1))]))])])],
      nd ''ExpressionStatement'' [(''expression'', Child (at_pos 22 33 (nd ''TSAsExpression''
         [(''expression'', Child (at_pos 22 23 (ident ''x''))),
          (''typeAnnotation'', Child (nd ''TSNumberKeyword'' []))])))]]) []"

definition widened_declarator :: cursor where
  "widened_declarator = elems (elems widened_program ''body'' ! 0) ''declarations'' ! 0"

definition widened_assertion :: cursor where
  "widened_assertion = child (elems widened_program ''body'' ! 1) ''expression''"

definition widened_variable :: variable where
  "widened_variable =
     \<lparr>var_id = 0, var_name = ''x'', var_identifiers = [child widened_declarator ''id''],
      var_defs = [\<lparr>def_type = ''Variable'', def_node = widened_declarator,
                   def_parent = parent widened_declarator\<rparr>],
      var_references = []\<rparr>"

definition widened_source :: source_code where
  "widened_source = example_source\<lparr>scopeReferences :=
     [[\<lparr>sref_identifier = child widened_assertion ''expression'',
        sref_resolved = Some widened_variable\<rparr>]]\<rparr>"

lemma widened_well_scoped: "well_scoped widened_source"
proof -
  have "variables widened_source \<subseteq> {widened_variable}"
    by (auto simp: variables_def widened_source_def example_source_def)
  then show ?thesis by (auto simp: well_scoped_def inj_on_def intro: finite_subset)
qed

subsection \<open>Properties\<close>

text \<open>
  C8: a report of no-widen-then-assert is sound: the asserted expression names a constant that
  is never reassigned; its declaration widens a value to a broad type, by its annotation or by
  an assertion; the recursion without visited variables finds evidence for that value; the
  reported assertion comes after the declaration in the same function; and its type is narrower
  than the broad type: not broad itself and, unless the broad type is unknown or any, spelled
  like the type of the value or, after object, certainly an object type or, after a record,
  certainly a narrower record.
\<close>

theorem widen_report_sound:
  assumes "well_scoped sc"
    and "widenThenAssert_check depth sc (scopeReferences sc) node = Some (r # rs)"
  shows "\<exists>v declarator expression k t n.
    resolvedVariableForIdentifier (scopeReferences sc) (assertedExpression node) = Some v \<and>
    declaratorOf v = Some declarator \<and> const_declarator declarator \<and> reassigned v = False \<and>
    widens declarator k expression \<and>
    plain_run (value_evidence_plain (scopeReferences sc) (functionBoundary declarator)) n expression =
      Some (Some t) \<and>
    endp declarator < startp node \<and> functionBoundary node = functionBoundary declarator \<and>
    narrows (sourceText sc) k t (child node ''typeAnnotation'')"
proof -
  from assms(2) obtain v w where v:
    "resolvedVariableForIdentifier (scopeReferences sc) (assertedExpression node) = Some v"
    and w: "widenedBinding depth v (scopeReferences sc) = Some (Some w)"
    and late: "wb_declaredAt w < startp node" "functionBoundary node = wb_boundary w"
    and narrower: "narrows (sourceText sc) (wb_broadKind w) (wb_evidence w)
      (child node ''typeAnnotation'')"
    by (auto simp: widenThenAssert_check_def Let_def assertion_narrower_iff
        split: if_splits option.splits)
  from w obtain declarator expression where d: "declaratorOf v = Some declarator"
    "const_declarator declarator" "\<not> reassigned v" "wb_declaredAt w = endp declarator"
    "wb_boundary w = functionBoundary declarator" "widens declarator (wb_broadKind w) expression"
    and known: "knownValueEvidence depth expression (scopeReferences sc) (functionBoundary declarator)
      [var_id v] = Some (Some (wb_evidence w))"
    by (rule widened_bindingD)
  obtain n where "plain_run (value_evidence_plain (scopeReferences sc)
      (functionBoundary declarator)) n expression = Some (Some (wb_evidence w))"
    using value_evidence_sound [OF assms(1) known] by blast
  with v d late narrower show ?thesis
    by (intro exI [of _ v] exI [of _ declarator] exI [of _ expression] exI [of _ "wb_broadKind w"]
        exI [of _ "wb_evidence w"] exI [of _ n]) simp
qed

theorem widen_report_sound_witness:
  "widenThenAssert_check 3 widened_source (scopeReferences widened_source) widened_assertion =
     Some [\<lparr>rnode = widened_assertion, messageId = ''widenThenAssert'', rdata = [(''name'', ''x'')]\<rparr>] \<and>
   (\<exists>v declarator expression k. resolvedVariableForIdentifier (scopeReferences widened_source)
      (assertedExpression widened_assertion) = Some v \<and> reassigned v = False \<and>
      declaratorOf v = Some declarator \<and> widens declarator k expression)"
proof -
  have run: "widenThenAssert_check 3 widened_source (scopeReferences widened_source) widened_assertion =
      Some [\<lparr>rnode = widened_assertion, messageId = ''widenThenAssert'', rdata = [(''name'', ''x'')]\<rparr>]"
    by code_simp
  with widen_report_sound [OF widened_well_scoped run] show ?thesis by blast
qed

text \<open>
  C17: no-widen-then-assert returns on every program with enough stack, also when the constants
  whose initializers it follows are initialized from themselves or from each other.
\<close>

theorem widen_then_assert_returns:
  assumes "well_scoped sc" and "kind p = ''Program''" and "\<forall>c \<in> set cs. kind c \<noteq> ''Program''"
  shows "\<exists>n. \<forall>m\<ge>n. run_listener (noWidenThenAssertRule m) sc (p # cs) [] \<noteq> None"
proof -
  obtain n where n: "\<forall>m\<ge>n. \<forall>c\<in>set cs. widenThenAssert_check m sc (scopeReferences sc) c \<noteq> None"
    using converges_finite [of "set cs" "\<lambda>c n. widenThenAssert_check n sc (scopeReferences sc) c"]
      widen_check_converges [OF assms(1)] by auto
  have "run_listener (noWidenThenAssertRule m) sc (p # cs) [] \<noteq> None" if "m \<ge> n" for m
  proof -
    have "\<exists>rs. noWidenThenAssertRule m sc c (scopeReferences sc) = Some (scopeReferences sc, rs)"
      if "c \<in> set cs" for c
      using n \<open>m \<ge> n\<close> assms(3) that by (auto simp: noWidenThenAssertRule_def)
    then have "run_listener (noWidenThenAssertRule m) sc cs (scopeReferences sc) \<noteq> None"
      by (rule run_listener_total)
    then show ?thesis using assms(2) by (auto simp: noWidenThenAssertRule_def)
  qed
  then show ?thesis by blast
qed

theorem widen_then_assert_returns_witness:
  "\<exists>n. \<forall>m\<ge>n. run_listener (noWidenThenAssertRule m) widened_source
     (widened_program # [widened_assertion]) [] \<noteq> None"
proof (rule widen_then_assert_returns [OF widened_well_scoped])
  show "kind widened_program = ''Program''" by code_simp
  show "\<forall>c \<in> set [widened_assertion]. kind c \<noteq> ''Program''" by code_simp
qed

end
