(* ===== verification/Spec2Isabelle.thy ===== *)
theory Spec2Isabelle
  imports Unknown_Rules Dictionary_Divergence Array_Methods Safety_Comments Effect_Rules
    Known_Widening Widen_Then_Assert
begin

text \<open>
  \<^bold>\<open>The program.\<close> The TypeScript code of the repository is the lint plugin anti-slop, kept under
  .agents/skills/install-anti-slop/assets/anti-slop (A/ below). It runs inside a linter that
  parses a file, walks its syntax tree and calls, for each node it enters, the handlers that a
  rule has registered for the node's type. A rule is an object with a create function: it gets
  the context of the file (source text, comments, scopes, visitor keys), keeps state in local
  variables, and returns the handlers; the handlers call context.report. The directory
  A/shared holds the analyses the rules have in common, A/rules the general rules and A/effect
  the rules for programs that use Effect.

  \<^bold>\<open>How the program is modelled.\<close>

  \<^item> Prelude: generic lemmas on lists, walks and options, the predicate converges (all
    sufficiently large stack depths give a result, and the same one) and the locale
    call_recursion, which proves convergence once for every recursion with a stack depth whose
    calls descend in a well-founded order.
  \<^item> Ast: ESTree nodes as a datatype of type name, position and properties; a cursor is a node
    with the path from the root, so that node.parent of the code is parent, and the identity of
    nodes (the === of the code) is the equality of cursors. preorder is the traversal along the
    visitor keys.
  \<^item> Js_Strings: the string functions of the language that the rules call.
  \<^item> Lexical_Types (A/shared/lexical-type-parameters.ts), Type_Bindings and Type_Resolution
    (A/shared/type-alias-resolution.ts; Type_Denotation gives its meaning), Function_Parameters (A/shared/function-parameters.ts),
    Dictionary_Types (A/shared/dictionary-types.ts): the shared analyses, one definition per
    function.
  \<^item> Lint_Context: what the code uses of its host (source text, comments, tokens, scopes,
    variables, references, options), A/shared/scope.ts, and run_listener, the run of a rule over
    the nodes of a file with its state threaded through. The host is not part of the repository:
    its answers are fields of the record source_code, on which the theorems quantify, and the
    laws they need of it (a variable's scope manager is finite, definition nodes belong to the
    program) are named hypotheses well_scoped and definitions_in.
  \<^item> Unknown_Rules (A/rules/no-object-parameters.ts, no-unknown-parameters.ts,
    no-unknown-returns.ts, no-unknown-type-aliases.ts), Unsafe_Dictionary
    (no-unsafe-dictionary-type.ts), Array_Methods (A/shared/array-method.ts,
    no-array-filter-map.ts, no-reduce-accumulator-copy.ts), Assertions
    (no-chained-type-assertions.ts), Safety_Comments
    (require-safety-comment-for-type-assertion.ts), Expression_Rules
    (A/shared/reflect-method.ts, no-reflect-apply.ts, no-reflect-get.ts, no-module-mocking.ts,
    no-runtime-typeof.ts, no-shape-in-symbol-names.ts, no-conditional-empty-object-spread.ts),
    Known_Widening (no-known-value-widening.ts), Widen_Then_Assert (no-widen-then-assert.ts) and
    Effect_Rules (A/effect/shared/tagged-values.ts and the five rules of A/effect/rules): the
    rules. The state of a rule is a record or map of its create function's variables; its
    handlers carry the names of the node types; a rule is one function from a source, a node and
    a state to the new state and the reports.

  \<^bold>\<open>Stack depth.\<close> Functions of the code that recurse through resolved types or variables need not
  end by their structure. They take a stack depth, one less at each call, and return None when it
  is used up, which is what the code does with its stack. No bound is chosen: the theorems say
  that some depth is enough and every larger one gives the same result, or that no depth is.

  \<^bold>\<open>What is shown.\<close>

  \<^item> Types: the lookup of a type name finds the innermost declaration and respects type
    parameters; environments are complete, in source order, and cached per program.
    Type_Denotation defines what a type reaches under statically scoped aliases (reaches), without
    the maps and sets of the code; on hygienic programs, where no alias mentions a parameter of
    another alias, the resolution finds exactly what is reached without expanding an alias twice
    (locales type_matcher and disjunctive_matcher, interpreted for the three rules that use it).
    Without generic aliases nothing is lost; with them a nested application such as
    Id<Id<object>> is missed, which is a theorem too.
  \<^item> Dictionaries: the classification returns on every program whose alias parameters can be
    ranked (ranked_source; Dictionary_Termination): an argument or default for a parameter
    mentions only names of alias parameters of lower rank, or is just that parameter's name. It
    overflows on a program of two lines that cannot be ranked (Dictionary_Divergence); reports
    are outermost.
  \<^item> Variables: the searches that follow the initializers of constants return on every program,
    and their sets of visited variables change no answer except to stop at cyclic constants
    (locales initializer_chain and variable_chain, interpreted for the five searches).
  \<^item> Rules: which nodes are reported, on every branch, and that every rule's run returns.

  \<^bold>\<open>Not modelled.\<close> The meta objects of the rules (messages, schemas) and the index.ts files that
  register them; the layout rule A/rules/require-readable-spacing.ts with the matcher it takes
  from A/vendor/eslint-stylistic; the installer and the parts of the repository in other
  languages (the Zig core under src, the C benchmark, the Python scripts).
\<close>

end
